theory Spec2Isabelle
  imports Main "HOL-Library.Word"
begin

section \<open>Tokens and character classes\<close>

text \<open>
  The enum \<^verbatim>\<open>TokenType\<close> and the struct \<^verbatim>\<open>Token\<close> of \<^verbatim>\<open>main.cpp\<close>.
  A \<^verbatim>\<open>Character\<close> is an \<^verbatim>\<open>int\<close>; a byte of the buffer is read as its code.
  No character class below holds of a byte above 127, so reading bytes as
  unsigned loses nothing.
\<close>

datatype TokenType =
    TOKEN_TYPE_NULL
  | TOKEN_TYPE_INTEGER
  | TOKEN_TYPE_ADD
  | TOKEN_TYPE_MINUS
  | TOKEN_TYPE_MUL
  | TOKEN_TYPE_LPAREN
  | TOKEN_TYPE_RPAREN

record Token =
  name :: string
  type :: TokenType

type_synonym Character = int

definition beginsWithName :: "Character \<Rightarrow> bool" where
  "beginsWithName c \<longleftrightarrow>
     (c \<ge> of_char CHR ''a'' \<and> c \<le> of_char CHR ''z'')
     \<or> (c \<ge> of_char CHR ''A'' \<and> c \<le> of_char CHR ''Z'')
     \<or> c = of_char CHR ''_''"

definition beginsWithDigit :: "Character \<Rightarrow> bool" where
  "beginsWithDigit c \<longleftrightarrow> c \<ge> of_char CHR ''0'' \<and> c \<le> of_char CHR ''9''"

definition isIdentifier :: "Character \<Rightarrow> bool" where
  "isIdentifier c \<longleftrightarrow> beginsWithName c \<or> beginsWithDigit c"

text \<open>
  \<^verbatim>\<open>std::isprint\<close> and \<^verbatim>\<open>std::isspace\<close> in the "C" locale, which is the locale
  of a program that never calls \<^verbatim>\<open>setlocale\<close>: the printable characters are
  0x20 to 0x7E; the whitespace characters are the blank and 0x09 to 0x0D
  (tab, newline, vertical tab, form feed, carriage return).
\<close>

definition isprint :: "Character \<Rightarrow> bool" where
  "isprint c \<longleftrightarrow> 32 \<le> c \<and> c \<le> 126"

definition isspace :: "Character \<Rightarrow> bool" where
  "isspace c \<longleftrightarrow> c = 32 \<or> (9 \<le> c \<and> c \<le> 13)"

section \<open>The scanner\<close>

record Scanner =
  buffer :: string
  currentCharacterIndex :: nat
  nextCharacterIndex :: nat

definition getCharacter :: "Scanner \<Rightarrow> Character" where
  "getCharacter s =
     (if currentCharacterIndex s \<ge> length (buffer s) then 0
      else of_char (buffer s ! currentCharacterIndex s))"

definition incrementPosition :: "Scanner \<Rightarrow> Scanner" where
  "incrementPosition s = s\<lparr>currentCharacterIndex := currentCharacterIndex s + 1\<rparr>"

definition setBuffer :: "string \<Rightarrow> Scanner \<Rightarrow> Scanner" where
  "setBuffer buf s = s\<lparr>currentCharacterIndex := 0, buffer := buf\<rparr>"

text \<open>
  The three loops of \<^verbatim>\<open>peekToken\<close>. The local \<^verbatim>\<open>c\<close> is reloaded by
  \<^verbatim>\<open>getCharacter\<close> after every step, so at each loop head it is the character
  under the cursor. A loop runs only while that character is not 0, hence
  while the cursor is inside the buffer.
\<close>

function skipWhitespace :: "Scanner \<Rightarrow> Scanner" where
  "skipWhitespace s =
     (if isspace (getCharacter s) then skipWhitespace (incrementPosition s) else s)"
  by pat_completeness auto
termination
  by (relation "measure (\<lambda>s. length (buffer s) - currentCharacterIndex s)")
     (auto simp: getCharacter_def isspace_def incrementPosition_def split: if_splits)

function collectDigits :: "string \<Rightarrow> Scanner \<Rightarrow> string \<times> Scanner" where
  "collectDigits nm s =
     (if beginsWithDigit (getCharacter s)
      then collectDigits (nm @ [char_of (getCharacter s)]) (incrementPosition s)
      else (nm, s))"
  by pat_completeness auto
termination
  by (relation "measure (\<lambda>(nm, s). length (buffer s) - currentCharacterIndex s)")
     (auto simp: getCharacter_def beginsWithDigit_def incrementPosition_def split: if_splits)

function skipTrailing :: "Scanner \<Rightarrow> Scanner" where
  "skipTrailing s =
     (if isIdentifier (getCharacter s) \<or> getCharacter s = of_char CHR ''.''
      then skipTrailing (incrementPosition s) else s)"
  by pat_completeness auto
termination
  by (relation "measure (\<lambda>s. length (buffer s) - currentCharacterIndex s)")
     (auto simp: getCharacter_def isIdentifier_def beginsWithName_def beginsWithDigit_def
        incrementPosition_def split: if_splits)

declare skipWhitespace.simps [simp del] collectDigits.simps [simp del]
  skipTrailing.simps [simp del]

text \<open>
  \<^verbatim>\<open>Scanner::peekToken\<close>. Besides the token it returns the lines it prints, in
  order. The two early returns leave the scanner as it was, \<^verbatim>\<open>nextCharacterIndex\<close>
  included; every other path stores the scan position in \<^verbatim>\<open>nextCharacterIndex\<close> and
  puts \<^verbatim>\<open>currentCharacterIndex\<close> back. \<open>scanToken\<close> is the part of the body between
  the whitespace loop and the two final assignments (lines 84 to 126): the
  \<^verbatim>\<open>if\<close> on \<^verbatim>\<open>beginsWithDigit\<close> with the \<^verbatim>\<open>switch\<close> in its \<^verbatim>\<open>else\<close> branch. A token's
  \<^verbatim>\<open>name\<close> starts empty; \<^verbatim>\<open>t.name = c\<close> makes it the one character \<^verbatim>\<open>c\<close>, also when
  \<^verbatim>\<open>c\<close> is 0.
\<close>

definition scanToken :: "Scanner \<Rightarrow> Token \<times> string list \<times> Scanner" where
  "scanToken s1 =
     (let c = getCharacter s1 in
      if beginsWithDigit c then
        (let (nm, s2) = collectDigits [] s1; c = getCharacter s2 in
         if isIdentifier c \<or> c = of_char CHR ''.''
         then (\<lparr>name = nm, type = TOKEN_TYPE_INTEGER\<rparr>,
               [''skipping trailing characters for integer'' @ [CHR 0x0A]], skipTrailing s2)
         else (\<lparr>name = nm, type = TOKEN_TYPE_INTEGER\<rparr>, [], s2))
      else
        (let nm = [char_of c] in
         if c = of_char CHR ''+'' then
           (\<lparr>name = nm, type = TOKEN_TYPE_ADD\<rparr>, [], incrementPosition s1)
         else if c = of_char CHR ''-'' then
           (\<lparr>name = nm, type = TOKEN_TYPE_MINUS\<rparr>, [], incrementPosition s1)
         else if c = of_char CHR ''*'' then
           (\<lparr>name = nm, type = TOKEN_TYPE_MUL\<rparr>, [], incrementPosition s1)
         else if c = of_char CHR ''('' then
           (\<lparr>name = nm, type = TOKEN_TYPE_LPAREN\<rparr>, [], incrementPosition s1)
         else if c = of_char CHR '')'' then
           (\<lparr>name = nm, type = TOKEN_TYPE_RPAREN\<rparr>, [], incrementPosition s1)
         else
           (\<lparr>name = nm, type = TOKEN_TYPE_NULL\<rparr>,
            [''Unexpected lexical analysis character '' @ [char_of c] @ [CHR 0x0A]], s1)))"

definition peekToken :: "Scanner \<Rightarrow> Token \<times> string list \<times> Scanner" where
  "peekToken s =
     (let previousCharacterIndex = currentCharacterIndex s; c = getCharacter s in
      if c = 0 then (\<lparr>name = [], type = TOKEN_TYPE_NULL\<rparr>, [], s)
      else if \<not> isprint c then
        (\<lparr>name = [], type = TOKEN_TYPE_NULL\<rparr>,
         [''Bad lexical analysis stream (no such printable character)'' @ [CHR 0x0A]], s)
      else
        (let (t, printed, s2) = scanToken (skipWhitespace s) in
         (t, printed,
          s2\<lparr>nextCharacterIndex := currentCharacterIndex s2,
             currentCharacterIndex := previousCharacterIndex\<rparr>)))"

definition nextToken :: "Scanner \<Rightarrow> Scanner" where
  "nextToken s = s\<lparr>currentCharacterIndex := nextCharacterIndex s\<rparr>"

section \<open>Expression trees\<close>

text \<open>
  A \<^verbatim>\<open>Tree *\<close> is either \<^verbatim>\<open>nullptr\<close> or points to a node that \<^verbatim>\<open>new\<close> made for one
  of the three \<^verbatim>\<open>create...\<close> functions; every node is the child of at most one
  parent. The tag \<^verbatim>\<open>treeType\<close> is the constructor (no node is ever made with
  \<^verbatim>\<open>TREE_TYPE_NONE\<close>). The \<^verbatim>\<open>int operatorType\<close> of a binary node only ever holds a
  \<^verbatim>\<open>TokenType\<close>.
\<close>

datatype Tree =
    NullTree
  | LiteralTree Token
  | UnaryExpressionTree TokenType Tree
  | BinaryExpressionTree TokenType Tree Tree

text \<open>
  The process state the parser works on: the global \<^verbatim>\<open>Scanner s\<close>, the lines
  written by \<^verbatim>\<open>printf\<close> so far, and the number of tree nodes that \<^verbatim>\<open>new\<close> has
  made and \<^verbatim>\<open>delete\<close> has not yet released.
\<close>

record Globals =
  scanner :: Scanner
  console :: "string list"
  liveNodes :: int

definition printf :: "string \<Rightarrow> Globals \<Rightarrow> Globals" where
  "printf line g = g\<lparr>console := console g @ [line]\<rparr>"

definition createLiteralTree :: "Token \<Rightarrow> Globals \<Rightarrow> Tree \<times> Globals" where
  "createLiteralTree token g = (LiteralTree token, g\<lparr>liveNodes := liveNodes g + 1\<rparr>)"

definition createUnaryExpressionTree :: "TokenType \<Rightarrow> Tree \<Rightarrow> Globals \<Rightarrow> Tree \<times> Globals" where
  "createUnaryExpressionTree operatorType child g =
     (UnaryExpressionTree operatorType child, g\<lparr>liveNodes := liveNodes g + 1\<rparr>)"

definition createBinaryExpressionTree ::
    "TokenType \<Rightarrow> Tree \<Rightarrow> Tree \<Rightarrow> Globals \<Rightarrow> Tree \<times> Globals" where
  "createBinaryExpressionTree operatorType left right g =
     (BinaryExpressionTree operatorType left right, g\<lparr>liveNodes := liveNodes g + 1\<rparr>)"

text \<open>\<^verbatim>\<open>s.peekToken()\<close> and \<^verbatim>\<open>s.nextToken()\<close> on the global scanner.\<close>

definition s_peekToken :: "Globals \<Rightarrow> Token \<times> Globals" where
  "s_peekToken g =
     (let (t, printed, s') = peekToken (scanner g) in
      (t, g\<lparr>scanner := s', console := console g @ printed\<rparr>))"

definition s_nextToken :: "Globals \<Rightarrow> Globals" where
  "s_nextToken g = g\<lparr>scanner := nextToken (scanner g)\<rparr>"

definition s_setBuffer :: "string \<Rightarrow> Globals \<Rightarrow> Globals" where
  "s_setBuffer buf g = g\<lparr>scanner := setBuffer buf (scanner g)\<rparr>"

definition matchToken :: "Token \<Rightarrow> TokenType \<Rightarrow> bool" where
  "matchToken t ty \<longleftrightarrow> type t = ty"

definition matchTerm :: "Token \<Rightarrow> bool" where
  "matchTerm t \<longleftrightarrow> type t = TOKEN_TYPE_ADD \<or> type t = TOKEN_TYPE_MINUS"

definition matchFactor :: "Token \<Rightarrow> bool" where
  "matchFactor t \<longleftrightarrow> type t = TOKEN_TYPE_MUL"

text \<open>
  \<^verbatim>\<open>destroyExpressionTreeWithChildren\<close>: the children first, then the node itself;
  each \<^verbatim>\<open>delete\<close> releases one node.
\<close>

fun destroyExpressionTreeWithChildren :: "Tree \<Rightarrow> Globals \<Rightarrow> Globals" where
  "destroyExpressionTreeWithChildren NullTree g = g"
| "destroyExpressionTreeWithChildren (BinaryExpressionTree operatorType left right) g =
     (let g1 = destroyExpressionTreeWithChildren left g;
          g2 = destroyExpressionTreeWithChildren right g1
      in g2\<lparr>liveNodes := liveNodes g2 - 1\<rparr>)"
| "destroyExpressionTreeWithChildren (LiteralTree token) g = g\<lparr>liveNodes := liveNodes g - 1\<rparr>"
| "destroyExpressionTreeWithChildren (UnaryExpressionTree operatorType child) g =
     (let g1 = destroyExpressionTreeWithChildren child g
      in g1\<lparr>liveNodes := liveNodes g1 - 1\<rparr>)"

text \<open>\<^verbatim>\<open>c_str()\<close> as \<^verbatim>\<open>printf\<close>'s \<^verbatim>\<open>%s\<close> reads it: up to the first zero byte.\<close>

definition c_str :: "string \<Rightarrow> string" where
  "c_str str = takeWhile (\<lambda>ch. ch \<noteq> CHR 0x00) str"

section \<open>The parser\<close>

text \<open>
  The four parsing functions call each other, so they are defined together; each
  takes the process state and returns the tree with the state it leaves. In
  \<^verbatim>\<open>createBinaryExpressionTree(tok.type, a, parsePrimary())\<close> the call of the parsing
  function is an argument, so it runs before the node is allocated. That the
  recursion ends on every input is proved below, after the facts about the scanner
  it needs.
\<close>

function parsePrimary :: "Globals \<Rightarrow> Tree \<times> Globals"
  and parseMultiplicativeExpression :: "Globals \<Rightarrow> Tree \<times> Globals"
  and parseAdditiveExpression :: "Globals \<Rightarrow> Tree \<times> Globals"
  and parseExpression :: "Globals \<Rightarrow> Tree \<times> Globals"
where
  "parsePrimary g =
     (let (t, g1) = s_peekToken g in
      if matchToken t TOKEN_TYPE_INTEGER then createLiteralTree t (s_nextToken g1)
      else if matchToken t TOKEN_TYPE_LPAREN then
        (let (tree, g2) = parseExpression (s_nextToken g1);
             (t', g3) = s_peekToken g2
         in if type t' \<noteq> TOKEN_TYPE_RPAREN then
              (NullTree,
               destroyExpressionTreeWithChildren tree
                 (printf (''Expected right parantheses match'' @ [CHR 0x0A]) g3))
            else (tree, s_nextToken g3))
      else (NullTree, printf (''Syntax error in '' @ c_str (name t) @ [CHR 0x0A]) g1))"
| "parseMultiplicativeExpression g =
     (let (a, g1) = parsePrimary g;
          (tok, g2) = s_peekToken g1
      in if matchFactor tok then
           (let (b, g3) = parsePrimary (s_nextToken g2);
                (a', g4) = createBinaryExpressionTree (type tok) a b g3;
                (tok', g5) = s_peekToken g4
            in if matchFactor tok' then
                 (let (c, g6) = parseMultiplicativeExpression (s_nextToken g5)
                  in createBinaryExpressionTree (type tok') a' c g6)
               else (a', g5))
         else (a, g2))"
| "parseAdditiveExpression g =
     (let (a, g1) = parseMultiplicativeExpression g;
          (tok, g2) = s_peekToken g1
      in if matchTerm tok then
           (let (b, g3) = parseMultiplicativeExpression (s_nextToken g2);
                (a', g4) = createBinaryExpressionTree (type tok) a b g3;
                (tok', g5) = s_peekToken g4
            in if matchTerm tok' then
                 (let (c, g6) = parseAdditiveExpression (s_nextToken g5)
                  in createBinaryExpressionTree (type tok') a' c g6)
               else (a', g5))
         else (a, g2))"
| "parseExpression g = parseAdditiveExpression g"
  by pat_completeness auto

section \<open>The evaluator\<close>

text \<open>
  \<^verbatim>\<open>std::atoll\<close> is the C library's: it skips leading whitespace, reads an optional
  sign and then decimal digits up to the first character that is not a digit, and
  returns the value as a \<^verbatim>\<open>long long\<close>. A value outside the range of \<^verbatim>\<open>long long\<close>
  is left undefined by the C standard; it is modelled as glibc computes it
  (\<^verbatim>\<open>strtoll\<close>, which returns \<^verbatim>\<open>LLONG_MAX\<close> or \<^verbatim>\<open>LLONG_MIN\<close>).
\<close>

definition LLONG_MAX :: int where
  "LLONG_MAX = 2 ^ 63 - 1"

definition LLONG_MIN :: int where
  "LLONG_MIN = - (2 ^ 63)"

fun digitsValue :: "int \<Rightarrow> string \<Rightarrow> int" where
  "digitsValue acc [] = acc"
| "digitsValue acc (ch # r) =
     (if beginsWithDigit (of_char ch)
      then digitsValue (acc * 10 + (of_char ch - of_char CHR ''0'')) r
      else acc)"

definition atoll :: "string \<Rightarrow> int" where
  "atoll str =
     (case dropWhile (\<lambda>ch. isspace (of_char ch)) str of
        [] \<Rightarrow> 0
      | ch # r \<Rightarrow>
          if ch = CHR ''-'' then max LLONG_MIN (- digitsValue 0 r)
          else if ch = CHR ''+'' then min LLONG_MAX (digitsValue 0 r)
          else min LLONG_MAX (digitsValue 0 (ch # r)))"

type_synonym uint64_t = "64 word"

text \<open>
  \<^verbatim>\<open>evaluateConstantExpressionTree\<close>. The \<^verbatim>\<open>long long\<close> that \<^verbatim>\<open>atoll\<close> returns is
  converted to \<^verbatim>\<open>std::uint64_t\<close> by the \<^verbatim>\<open>return\<close>. The \<^verbatim>\<open>default\<close> branch of the
  outer \<^verbatim>\<open>switch\<close> is for a tag that no node carries.
\<close>

fun evaluateConstantExpressionTree :: "Tree \<Rightarrow> uint64_t" where
  "evaluateConstantExpressionTree NullTree = 0"
| "evaluateConstantExpressionTree (BinaryExpressionTree operatorType left right) =
     (let a = evaluateConstantExpressionTree left;
          b = evaluateConstantExpressionTree right
      in case operatorType of
           TOKEN_TYPE_ADD \<Rightarrow> a + b
         | TOKEN_TYPE_MINUS \<Rightarrow> a - b
         | TOKEN_TYPE_MUL \<Rightarrow> a * b
         | _ \<Rightarrow> 0)"
| "evaluateConstantExpressionTree (LiteralTree token) = word_of_int (atoll (c_str (name token)))"
| "evaluateConstantExpressionTree (UnaryExpressionTree operatorType child) =
     (let result = evaluateConstantExpressionTree child
      in case operatorType of
           TOKEN_TYPE_MINUS \<Rightarrow> - result
         | _ \<Rightarrow> result)"

section \<open>The test driver\<close>

record ExpressionEvaluationTester =
  test_buffer :: string
  test_result :: uint64_t

definition evaluations :: "ExpressionEvaluationTester list" where
  "evaluations =
     [\<lparr>test_buffer = ''4 + 3 * 8'', test_result = word_of_int (4 + 3 * 8)\<rparr>,
      \<lparr>test_buffer = ''(4 + 3) * 8'', test_result = word_of_int ((4 + 3) * 8)\<rparr>,
      \<lparr>test_buffer = ''(4 + 3 * 8) + 8 * 8 + (4 * 4)'',
       test_result = word_of_int ((4 + 3 * 8) + 8 * 8 + (4 * 4))\<rparr>]"

text \<open>
  The first three statements of the loop body of \<^verbatim>\<open>testExpressions\<close>: load the
  buffer, parse, evaluate. \<^verbatim>\<open>parseText\<close> stops after the parse.
\<close>

definition parseText :: "string \<Rightarrow> Globals \<Rightarrow> Tree \<times> Globals" where
  "parseText buf g = parseExpression (s_setBuffer buf g)"

definition evaluateText :: "string \<Rightarrow> Globals \<Rightarrow> uint64_t" where
  "evaluateText buf g = evaluateConstantExpressionTree (fst (parseText buf g))"

text \<open>The state of the process when \<^verbatim>\<open>main\<close> starts: the global scanner is zeroed.\<close>

definition initialGlobals :: Globals where
  "initialGlobals =
     \<lparr>scanner = \<lparr>buffer = [], currentCharacterIndex = 0, nextCharacterIndex = 0\<rparr>,
      console = [], liveNodes = 0\<rparr>"

section \<open>The scanner's loops in closed form\<close>

text \<open>
  Each loop of \<^verbatim>\<open>peekToken\<close> moves the cursor over the longest prefix of the unread
  text whose characters satisfy the loop's test.
\<close>

definition isspaceCh :: "char \<Rightarrow> bool" where "isspaceCh ch = isspace (of_char ch)"
definition isdigitCh :: "char \<Rightarrow> bool" where "isdigitCh ch = beginsWithDigit (of_char ch)"
definition istrailCh :: "char \<Rightarrow> bool" where
  "istrailCh ch \<longleftrightarrow> isIdentifier (of_char ch) \<or> ch = CHR ''.''"

definition here :: "Scanner \<Rightarrow> string" where
  "here s = drop (currentCharacterIndex s) (buffer s)"

lemma getCharacter_here:
  "getCharacter s = (case here s of [] \<Rightarrow> 0 | ch # _ \<Rightarrow> of_char ch)"
  by (cases "currentCharacterIndex s < length (buffer s)")
     (simp_all add: getCharacter_def here_def Cons_nth_drop_Suc [symmetric])

lemma here_incrementPosition:
  "here s = ch # r \<Longrightarrow> here (incrementPosition s) = r"
  by (simp add: here_def incrementPosition_def drop_Suc drop_tl)

lemma skipWhitespace_eq:
  "skipWhitespace s =
     s\<lparr>currentCharacterIndex := currentCharacterIndex s + length (takeWhile isspaceCh (here s))\<rparr>"
proof (induction s rule: skipWhitespace.induct)
  case (1 s)
  show ?case
  proof (cases "here s")
    case Nil
    then show ?thesis
      by (subst skipWhitespace.simps) (simp add: getCharacter_here isspace_def)
  next
    case (Cons ch r)
    show ?thesis
    proof (cases "isspace (of_char ch)")
      case True
      with Cons have sp: "isspace (getCharacter s)" by (simp add: getCharacter_here)
      have "skipWhitespace s = skipWhitespace (incrementPosition s)"
        using sp by (subst skipWhitespace.simps) simp
      also have "\<dots> = (incrementPosition s)\<lparr>currentCharacterIndex :=
          currentCharacterIndex (incrementPosition s) + length (takeWhile isspaceCh r)\<rparr>"
        using "1.IH" [OF sp] here_incrementPosition [OF Cons] by simp
      finally show ?thesis
        using Cons True isspaceCh_def [of ch] by (simp add: incrementPosition_def)
    next
      case False
      with Cons show ?thesis
        using isspaceCh_def [of ch] by (subst skipWhitespace.simps) (simp add: getCharacter_here)
    qed
  qed
qed

lemma collectDigits_eq:
  "collectDigits nm s =
     (nm @ takeWhile isdigitCh (here s),
      s\<lparr>currentCharacterIndex := currentCharacterIndex s + length (takeWhile isdigitCh (here s))\<rparr>)"
proof (induction nm s rule: collectDigits.induct)
  case (1 nm s)
  show ?case
  proof (cases "here s")
    case Nil
    then show ?thesis
      by (subst collectDigits.simps) (simp add: getCharacter_here beginsWithDigit_def)
  next
    case (Cons ch r)
    show ?thesis
    proof (cases "beginsWithDigit (of_char ch)")
      case True
      with Cons have sp: "beginsWithDigit (getCharacter s)" and gc: "getCharacter s = of_char ch"
        by (simp_all add: getCharacter_here)
      have "collectDigits nm s = collectDigits (nm @ [ch]) (incrementPosition s)"
        using sp gc by (subst collectDigits.simps) simp
      also have "\<dots> = (nm @ [ch] @ takeWhile isdigitCh r, (incrementPosition s)\<lparr>currentCharacterIndex :=
          currentCharacterIndex (incrementPosition s) + length (takeWhile isdigitCh r)\<rparr>)"
        using "1.IH" [OF sp] here_incrementPosition [OF Cons] gc by simp
      finally show ?thesis
        using Cons True isdigitCh_def [of ch] by (simp add: incrementPosition_def)
    next
      case False
      with Cons show ?thesis
        using isdigitCh_def [of ch] by (subst collectDigits.simps) (simp add: getCharacter_here)
    qed
  qed
qed

lemma skipTrailing_eq:
  "skipTrailing s =
     s\<lparr>currentCharacterIndex := currentCharacterIndex s + length (takeWhile istrailCh (here s))\<rparr>"
proof (induction s rule: skipTrailing.induct)
  case (1 s)
  show ?case
  proof (cases "here s")
    case Nil
    then show ?thesis
      by (subst skipTrailing.simps)
         (simp add: getCharacter_here isIdentifier_def beginsWithName_def beginsWithDigit_def)
  next
    case (Cons ch r)
    have dot: "(of_char ch = (of_char CHR ''.'' :: int)) = (ch = CHR ''.'')"
      by (metis of_char_eq_iff)
    show ?thesis
    proof (cases "istrailCh ch")
      case True
      with Cons have sp: "isIdentifier (getCharacter s) \<or> getCharacter s = of_char CHR ''.''"
        using dot istrailCh_def [of ch] by (simp add: getCharacter_here)
      have "skipTrailing s = skipTrailing (incrementPosition s)"
        using sp by (subst skipTrailing.simps) simp
      also have "\<dots> = (incrementPosition s)\<lparr>currentCharacterIndex :=
          currentCharacterIndex (incrementPosition s) + length (takeWhile istrailCh r)\<rparr>"
        using "1.IH" [OF sp] here_incrementPosition [OF Cons] by simp
      finally show ?thesis
        using Cons True by (simp add: incrementPosition_def)
    next
      case False
      with Cons show ?thesis
        using dot istrailCh_def [of ch] by (subst skipTrailing.simps) (simp add: getCharacter_here)
    qed
  qed
qed

section \<open>Termination of the parser\<close>

text \<open>
  \<^verbatim>\<open>peekToken\<close> never moves the cursor, and \<^verbatim>\<open>nextToken\<close> after a token that is not
  \<^verbatim>\<open>TOKEN_TYPE_NULL\<close> moves it forward inside the buffer. Every parsing function
  consumes a token before it calls a function of its own or a lower level again,
  so the unread text gets shorter along every chain of calls.
\<close>

lemma scanToken_frame:
  "scanToken s1 = (t, printed, s2) \<Longrightarrow>
     buffer s2 = buffer s1 \<and> nextCharacterIndex s2 = nextCharacterIndex s1
     \<and> currentCharacterIndex s1 \<le> currentCharacterIndex s2
     \<and> (type t \<noteq> TOKEN_TYPE_NULL \<longrightarrow> currentCharacterIndex s1 < currentCharacterIndex s2)"
proof (cases "beginsWithDigit (getCharacter s1)")
  case True
  assume sc: "scanToken s1 = (t, printed, s2)"
  from True obtain ch r where h: "here s1 = ch # r" and d: "isdigitCh ch"
    by (cases "here s1") (auto simp: getCharacter_here beginsWithDigit_def isdigitCh_def)
  with sc True show ?thesis
    by (auto simp: scanToken_def Let_def collectDigits_eq skipTrailing_eq split: if_splits)
next
  case False
  assume sc: "scanToken s1 = (t, printed, s2)"
  with False show ?thesis
    by (auto simp: scanToken_def Let_def incrementPosition_def split: if_splits)
qed

lemma peekToken_frame:
  assumes "peekToken s = (t, printed, s')"
  shows "buffer s' = buffer s" and "currentCharacterIndex s' = currentCharacterIndex s"
proof -
  obtain t1 p1 s2 where sc: "scanToken (skipWhitespace s) = (t1, p1, s2)"
    by (cases "scanToken (skipWhitespace s)") auto
  from scanToken_frame [OF sc] have "buffer s2 = buffer s"
    by (simp add: skipWhitespace_eq)
  with assms sc show "buffer s' = buffer s" and "currentCharacterIndex s' = currentCharacterIndex s"
    by (auto simp: peekToken_def Let_def split: if_splits)
qed

lemma peekToken_progress:
  assumes "peekToken s = (t, printed, s')" and "type t \<noteq> TOKEN_TYPE_NULL"
  shows "currentCharacterIndex s < nextCharacterIndex s'"
    and "currentCharacterIndex s < length (buffer s)"
proof -
  obtain t1 p1 s2 where sc: "scanToken (skipWhitespace s) = (t1, p1, s2)"
    by (cases "scanToken (skipWhitespace s)") auto
  from assms sc have full: "getCharacter s \<noteq> 0" and t: "t1 = t"
    and s': "s' = s2\<lparr>nextCharacterIndex := currentCharacterIndex s2,
             currentCharacterIndex := currentCharacterIndex s\<rparr>"
    by (auto simp: peekToken_def Let_def split: if_splits)
  from full show "currentCharacterIndex s < length (buffer s)"
    by (auto simp: getCharacter_def split: if_splits)
  from scanToken_frame [OF sc] assms(2) t
  have "currentCharacterIndex (skipWhitespace s) < currentCharacterIndex s2" by simp
  then show "currentCharacterIndex s < nextCharacterIndex s'"
    by (simp add: s' skipWhitespace_eq)
qed

definition remaining :: "Globals \<Rightarrow> nat" where
  "remaining g = length (buffer (scanner g)) - currentCharacterIndex (scanner g)"

text \<open>The cursor of \<open>g'\<close> is in the same buffer and not before that of \<open>g\<close>.\<close>

definition advanced :: "Globals \<Rightarrow> Globals \<Rightarrow> bool" where
  "advanced g g' \<longleftrightarrow>
     buffer (scanner g') = buffer (scanner g)
     \<and> currentCharacterIndex (scanner g) \<le> currentCharacterIndex (scanner g')"

lemma advanced_refl [simp]: "advanced g g"
  by (simp add: advanced_def)

lemma advanced_trans: "advanced g g' \<Longrightarrow> advanced g' g'' \<Longrightarrow> advanced g g''"
  by (auto simp: advanced_def)

lemma advanced_remaining: "advanced g g' \<Longrightarrow> remaining g' \<le> remaining g"
  by (auto simp: advanced_def remaining_def)

lemma s_peekToken_advanced: "s_peekToken g = (t, g') \<Longrightarrow> advanced g g'"
  by (auto simp: s_peekToken_def advanced_def split: prod.splits dest: peekToken_frame)

lemma s_nextToken_advanced:
  assumes "s_peekToken g = (t, g')" and "type t \<noteq> TOKEN_TYPE_NULL"
  shows "advanced g (s_nextToken g')" and "remaining (s_nextToken g') < remaining g"
proof -
  obtain p s' where pk: "peekToken (scanner g) = (t, p, s')" and g': "g' = g\<lparr>scanner := s', console := console g @ p\<rparr>"
    using assms(1) by (auto simp: s_peekToken_def split: prod.splits)
  from peekToken_frame [OF pk] peekToken_progress [OF pk assms(2)]
  show "advanced g (s_nextToken g')" and "remaining (s_nextToken g') < remaining g"
    by (auto simp: advanced_def remaining_def s_nextToken_def nextToken_def g')
qed

lemma destroy_scanner [simp]:
  "scanner (destroyExpressionTreeWithChildren t g) = scanner g"
  by (induction t arbitrary: g) (simp_all add: Let_def)

lemma advanced_scanner: "scanner g' = scanner g \<Longrightarrow> advanced g g'"
  by (simp add: advanced_def)

lemma createBinaryExpressionTree_scanner:
  "createBinaryExpressionTree ty a b g = (t, g') \<Longrightarrow> scanner g' = scanner g"
  by (auto simp: createBinaryExpressionTree_def)

lemma parse_advanced_partial:
  "parsePrimary_parseMultiplicativeExpression_parseAdditiveExpression_parseExpression_dom (Inl (Inl g1))
     \<Longrightarrow> advanced g1 (snd (parsePrimary g1))"
  "parsePrimary_parseMultiplicativeExpression_parseAdditiveExpression_parseExpression_dom (Inl (Inr g2))
     \<Longrightarrow> advanced g2 (snd (parseMultiplicativeExpression g2))"
  "parsePrimary_parseMultiplicativeExpression_parseAdditiveExpression_parseExpression_dom (Inr (Inl g3))
     \<Longrightarrow> advanced g3 (snd (parseAdditiveExpression g3))"
  "parsePrimary_parseMultiplicativeExpression_parseAdditiveExpression_parseExpression_dom (Inr (Inr g4))
     \<Longrightarrow> advanced g4 (snd (parseExpression g4))"
proof (induct rule: parsePrimary_parseMultiplicativeExpression_parseAdditiveExpression_parseExpression.pinduct)
  case (1 g)
  obtain t ga where pk: "s_peekToken g = (t, ga)" by (cases "s_peekToken g") auto
  note a1 = s_peekToken_advanced [OF pk]
  show ?case
  proof (cases "type t = TOKEN_TYPE_INTEGER")
    case True
    then have "advanced g (s_nextToken ga)" using s_nextToken_advanced(1) [OF pk] by simp
    then show ?thesis using True pk
      by (simp add: parsePrimary.psimps [OF "1.hyps"(1)] matchToken_def createLiteralTree_def
            advanced_def)
  next
    case notint: False
    show ?thesis
    proof (cases "type t = TOKEN_TYPE_LPAREN")
      case True
      have n1: "advanced g (s_nextToken ga)" using s_nextToken_advanced(1) [OF pk] True by simp
      have ih: "advanced (s_nextToken ga) (snd (parseExpression (s_nextToken ga)))"
        using "1.hyps"(2) [OF refl pk [symmetric]] notint True by (simp add: matchToken_def)
      obtain tree gb where pe: "parseExpression (s_nextToken ga) = (tree, gb)"
        by (cases "parseExpression (s_nextToken ga)") auto
      obtain t' gc where pk2: "s_peekToken gb = (t', gc)" by (cases "s_peekToken gb") auto
      have a2: "advanced g gc"
        using n1 ih pe s_peekToken_advanced [OF pk2] by (auto intro: advanced_trans)
      show ?thesis
      proof (cases "type t' = TOKEN_TYPE_RPAREN")
        case rp: True
        have "advanced gb (s_nextToken gc)" using s_nextToken_advanced(1) [OF pk2] rp by simp
        with n1 ih pe have "advanced g (s_nextToken gc)" by (auto intro: advanced_trans)
        then show ?thesis using pk notint True pe pk2 rp
          by (simp add: parsePrimary.psimps [OF "1.hyps"(1)] matchToken_def)
      next
        case False
        then show ?thesis using pk notint True pe pk2 a2
          by (simp add: parsePrimary.psimps [OF "1.hyps"(1)] matchToken_def advanced_def printf_def)
      qed
    next
      case False
      then show ?thesis using pk notint a1
        by (simp add: parsePrimary.psimps [OF "1.hyps"(1)] matchToken_def advanced_def printf_def)
    qed
  qed
next
  case (2 g)
  obtain a ga where p1: "parsePrimary g = (a, ga)" by (cases "parsePrimary g") auto
  obtain tok gb where pk: "s_peekToken ga = (tok, gb)" by (cases "s_peekToken ga") auto
  have a1: "advanced g gb"
    using "2.hyps"(2) p1 s_peekToken_advanced [OF pk] by (auto intro: advanced_trans)
  show ?case
  proof (cases "matchFactor tok")
    case False
    then show ?thesis using p1 pk a1
      by (simp add: parseMultiplicativeExpression.psimps [OF "2.hyps"(1)])
  next
    case True
    then have nn: "type tok \<noteq> TOKEN_TYPE_NULL" by (simp add: matchFactor_def)
    obtain b gc where p2: "parsePrimary (s_nextToken gb) = (b, gc)"
      by (cases "parsePrimary (s_nextToken gb)") auto
    obtain a' gd where cb: "createBinaryExpressionTree (type tok) a b gc = (a', gd)"
      by (cases "createBinaryExpressionTree (type tok) a b gc") auto
    obtain tok' ge where pk2: "s_peekToken gd = (tok', ge)" by (cases "s_peekToken gd") auto
    have ih1: "advanced (s_nextToken gb) gc"
      using "2.hyps"(3) [OF p1 [symmetric] refl refl pk [symmetric] True] p2 by simp
    have "advanced g (s_nextToken gb)"
      using "2.hyps"(2) p1 s_nextToken_advanced(1) [OF pk nn] by (auto intro: advanced_trans)
    with ih1 have "advanced g gc" by (blast intro: advanced_trans)
    moreover have "advanced gc gd"
      using createBinaryExpressionTree_scanner [OF cb] by (simp add: advanced_scanner)
    ultimately have a2: "advanced g ge"
      using s_peekToken_advanced [OF pk2] by (auto intro: advanced_trans)
    show ?thesis
    proof (cases "matchFactor tok'")
      case False
      then show ?thesis using p1 pk True p2 cb pk2 a2
        by (simp add: parseMultiplicativeExpression.psimps [OF "2.hyps"(1)])
    next
      case t2: True
      then have nn2: "type tok' \<noteq> TOKEN_TYPE_NULL" by (simp add: matchFactor_def)
      obtain c gf where p3: "parseMultiplicativeExpression (s_nextToken ge) = (c, gf)"
        by (cases "parseMultiplicativeExpression (s_nextToken ge)") auto
      have ih2: "advanced (s_nextToken ge) gf"
        using "2.hyps"(4) [OF p1 [symmetric] refl refl pk [symmetric] True refl p2 [symmetric]
            refl cb [symmetric] refl pk2 [symmetric] t2] p3 by simp
      have "advanced gd (s_nextToken ge)" using s_nextToken_advanced(1) [OF pk2 nn2] .
      with \<open>advanced g gc\<close> \<open>advanced gc gd\<close> ih2 have "advanced g gf"
        by (auto intro: advanced_trans)
      obtain r gg where cb2: "createBinaryExpressionTree (type tok') a' c gf = (r, gg)"
        by (cases "createBinaryExpressionTree (type tok') a' c gf") auto
      have "advanced g gg"
        using \<open>advanced g gf\<close> createBinaryExpressionTree_scanner [OF cb2]
        by (simp add: advanced_def)
      then show ?thesis using p1 pk True p2 cb pk2 t2 p3 cb2
        by (simp add: parseMultiplicativeExpression.psimps [OF "2.hyps"(1)])
    qed
  qed
next
  case (3 g)
  obtain a ga where p1: "parseMultiplicativeExpression g = (a, ga)"
    by (cases "parseMultiplicativeExpression g") auto
  obtain tok gb where pk: "s_peekToken ga = (tok, gb)" by (cases "s_peekToken ga") auto
  have a1: "advanced g gb"
    using "3.hyps"(2) p1 s_peekToken_advanced [OF pk] by (auto intro: advanced_trans)
  show ?case
  proof (cases "matchTerm tok")
    case False
    then show ?thesis using p1 pk a1
      by (simp add: parseAdditiveExpression.psimps [OF "3.hyps"(1)])
  next
    case True
    then have nn: "type tok \<noteq> TOKEN_TYPE_NULL" by (auto simp: matchTerm_def)
    obtain b gc where p2: "parseMultiplicativeExpression (s_nextToken gb) = (b, gc)"
      by (cases "parseMultiplicativeExpression (s_nextToken gb)") auto
    obtain a' gd where cb: "createBinaryExpressionTree (type tok) a b gc = (a', gd)"
      by (cases "createBinaryExpressionTree (type tok) a b gc") auto
    obtain tok' ge where pk2: "s_peekToken gd = (tok', ge)" by (cases "s_peekToken gd") auto
    have ih1: "advanced (s_nextToken gb) gc"
      using "3.hyps"(3) [OF p1 [symmetric] refl refl pk [symmetric] True] p2 by simp
    have "advanced g (s_nextToken gb)"
      using "3.hyps"(2) p1 s_nextToken_advanced(1) [OF pk nn] by (auto intro: advanced_trans)
    with ih1 have "advanced g gc" by (blast intro: advanced_trans)
    moreover have "advanced gc gd"
      using createBinaryExpressionTree_scanner [OF cb] by (simp add: advanced_scanner)
    ultimately have a2: "advanced g ge"
      using s_peekToken_advanced [OF pk2] by (auto intro: advanced_trans)
    show ?thesis
    proof (cases "matchTerm tok'")
      case False
      then show ?thesis using p1 pk True p2 cb pk2 a2
        by (simp add: parseAdditiveExpression.psimps [OF "3.hyps"(1)])
    next
      case t2: True
      then have nn2: "type tok' \<noteq> TOKEN_TYPE_NULL" by (auto simp: matchTerm_def)
      obtain c gf where p3: "parseAdditiveExpression (s_nextToken ge) = (c, gf)"
        by (cases "parseAdditiveExpression (s_nextToken ge)") auto
      have ih2: "advanced (s_nextToken ge) gf"
        using "3.hyps"(4) [OF p1 [symmetric] refl refl pk [symmetric] True refl p2 [symmetric]
            refl cb [symmetric] refl pk2 [symmetric] t2] p3 by simp
      have "advanced gd (s_nextToken ge)" using s_nextToken_advanced(1) [OF pk2 nn2] .
      with \<open>advanced g gc\<close> \<open>advanced gc gd\<close> ih2 have "advanced g gf"
        by (auto intro: advanced_trans)
      obtain r gg where cb2: "createBinaryExpressionTree (type tok') a' c gf = (r, gg)"
        by (cases "createBinaryExpressionTree (type tok') a' c gf") auto
      have "advanced g gg"
        using \<open>advanced g gf\<close> createBinaryExpressionTree_scanner [OF cb2]
        by (simp add: advanced_def)
      then show ?thesis using p1 pk True p2 cb pk2 t2 p3 cb2
        by (simp add: parseAdditiveExpression.psimps [OF "3.hyps"(1)])
    qed
  qed
next
  case (4 g)
  then show ?case by (simp add: parseExpression.psimps)
qed

lemma parse_step_remaining:
  assumes "advanced g ga" and "s_peekToken ga = (tok, gb)" and "type tok \<noteq> TOKEN_TYPE_NULL"
  shows "remaining (s_nextToken gb) < remaining g"
  using advanced_remaining [OF assms(1)] s_nextToken_advanced(2) [OF assms(2,3)] by simp

termination parsePrimary
proof (relation "measure (\<lambda>x. case x of
           Inl (Inl g) \<Rightarrow> 4 * remaining g
         | Inl (Inr g) \<Rightarrow> 4 * remaining g + 1
         | Inr (Inl g) \<Rightarrow> 4 * remaining g + 2
         | Inr (Inr g) \<Rightarrow> 4 * remaining g + 3)", goal_cases)
  case 1
  show ?case by simp
next
  case (2 g x t ga)
  then have "s_peekToken g = (t, ga)" and "type t \<noteq> TOKEN_TYPE_NULL"
    by (simp_all add: matchToken_def)
  from parse_step_remaining [OF advanced_refl this] show ?case by simp
next
  case (3 g)
  show ?case by simp
next
  case (4 g x a ga xb tok gb)
  then have "advanced g ga" and "s_peekToken ga = (tok, gb)" and "type tok \<noteq> TOKEN_TYPE_NULL"
    using parse_advanced_partial(1) [of g] by (auto simp: matchFactor_def dest: sym)
  from parse_step_remaining [OF this] show ?case by simp
next
  case (5 g x a ga xb tok gb xd b gc xf a' gd xh tok' ge)
  then have pk: "s_peekToken ga = (tok, gb)" and nn: "type tok \<noteq> TOKEN_TYPE_NULL"
    and pk2: "s_peekToken gd = (tok', ge)" and nn2: "type tok' \<noteq> TOKEN_TYPE_NULL"
    by (auto simp: matchFactor_def)
  from 5 have "advanced g ga"
    using parse_advanced_partial(1) [of g] by (auto dest: sym)
  with s_nextToken_advanced(1) [OF pk nn] have "advanced g (s_nextToken gb)"
    by (blast intro: advanced_trans)
  moreover from 5 have "advanced (s_nextToken gb) gc"
    using parse_advanced_partial(1) [of "s_nextToken gb"] by (auto dest: sym)
  moreover from 5 have "advanced gc gd"
    by (auto simp: createBinaryExpressionTree_def advanced_def)
  ultimately have "advanced g gd" by (blast intro: advanced_trans)
  from parse_step_remaining [OF this pk2 nn2] show ?case by simp
next
  case (6 g)
  show ?case by simp
next
  case (7 g x a ga xb tok gb)
  then have "advanced g ga" and "s_peekToken ga = (tok, gb)" and "type tok \<noteq> TOKEN_TYPE_NULL"
    using parse_advanced_partial(2) [of g] by (auto simp: matchTerm_def dest: sym)
  from parse_step_remaining [OF this] show ?case by simp
next
  case (8 g x a ga xb tok gb xd b gc xf a' gd xh tok' ge)
  then have pk: "s_peekToken ga = (tok, gb)" and nn: "type tok \<noteq> TOKEN_TYPE_NULL"
    and pk2: "s_peekToken gd = (tok', ge)" and nn2: "type tok' \<noteq> TOKEN_TYPE_NULL"
    by (auto simp: matchTerm_def)
  from 8 have "advanced g ga"
    using parse_advanced_partial(2) [of g] by (auto dest: sym)
  with s_nextToken_advanced(1) [OF pk nn] have "advanced g (s_nextToken gb)"
    by (blast intro: advanced_trans)
  moreover from 8 have "advanced (s_nextToken gb) gc"
    using parse_advanced_partial(2) [of "s_nextToken gb"] by (auto dest: sym)
  moreover from 8 have "advanced gc gd"
    by (auto simp: createBinaryExpressionTree_def advanced_def)
  ultimately have "advanced g gd" by (blast intro: advanced_trans)
  from parse_step_remaining [OF this pk2 nn2] show ?case by simp
next
  case (9 g)
  show ?case by simp
qed

declare parsePrimary.simps [simp del] parseMultiplicativeExpression.simps [simp del]
  parseAdditiveExpression.simps [simp del]

section \<open>What \<^verbatim>\<open>peekToken\<close> returns on a given text\<close>

lemma here_advance:
  "here (s\<lparr>currentCharacterIndex := currentCharacterIndex s + k\<rparr>) = drop k (here s)"
  by (simp add: here_def add.commute)

lemma here_nextCharacterIndex [simp]: "here (s\<lparr>nextCharacterIndex := n\<rparr>) = here s"
  by (simp add: here_def)

lemma takeWhile_prefix:
  "\<forall>x\<in>set xs. P x \<Longrightarrow> r = [] \<or> \<not> P (hd r) \<Longrightarrow> takeWhile P (xs @ r) = xs"
  by (cases r) (simp_all add: takeWhile_append2)

text \<open>The five one-character tokens.\<close>

definition isSymbol :: "char \<Rightarrow> bool" where
  "isSymbol ch \<longleftrightarrow> ch \<in> {CHR ''+'', CHR ''-'', CHR ''*'', CHR ''('', CHR '')''}"

definition symbolType :: "char \<Rightarrow> TokenType" where
  "symbolType ch =
     (if ch = CHR ''+'' then TOKEN_TYPE_ADD
      else if ch = CHR ''-'' then TOKEN_TYPE_MINUS
      else if ch = CHR ''*'' then TOKEN_TYPE_MUL
      else if ch = CHR ''('' then TOKEN_TYPE_LPAREN
      else if ch = CHR '')'' then TOKEN_TYPE_RPAREN
      else TOKEN_TYPE_NULL)"

text \<open>A run of whitespace that \<^verbatim>\<open>peekToken\<close> skips: empty, or a blank followed by
  any whitespace. (A run that starts with a tab or a newline is stopped by the
  \<^verbatim>\<open>isprint\<close> test.)\<close>

definition blanks :: "string \<Rightarrow> bool" where
  "blanks ws \<longleftrightarrow> (ws = [] \<or> hd ws = CHR '' '') \<and> (\<forall>ch\<in>set ws. isspaceCh ch)"

definition digits :: "string \<Rightarrow> bool" where
  "digits ds \<longleftrightarrow> ds \<noteq> [] \<and> (\<forall>ch\<in>set ds. isdigitCh ch)"

text \<open>The text \<open>r\<close> cannot continue a number.\<close>

definition stops :: "string \<Rightarrow> bool" where
  "stops r \<longleftrightarrow> r = [] \<or> \<not> istrailCh (hd r)"

lemma isdigitCh_facts:
  assumes "isdigitCh ch"
  shows "istrailCh ch" "\<not> isspaceCh ch" "isprint (of_char ch)" "(of_char ch :: int) \<noteq> 0"
    "\<not> isSymbol ch"
  using assms
  by (auto simp: isdigitCh_def istrailCh_def isspaceCh_def isprint_def isspace_def
      beginsWithDigit_def isIdentifier_def isSymbol_def)

lemma isSymbol_facts:
  assumes "isSymbol ch"
  shows "\<not> istrailCh ch" "\<not> isspaceCh ch" "isprint (of_char ch)" "(of_char ch :: int) \<noteq> 0"
    "\<not> isdigitCh ch"
  using assms
  by (auto simp: isdigitCh_def istrailCh_def isspaceCh_def isprint_def isspace_def
      beginsWithDigit_def isIdentifier_def isSymbol_def beginsWithName_def)

lemma scanToken_symbol:
  assumes "here s1 = ch # r" and "isSymbol ch"
  shows "scanToken s1 = (\<lparr>name = [ch], type = symbolType ch\<rparr>, [], incrementPosition s1)"
proof -
  have gc: "getCharacter s1 = of_char ch"
    using assms(1) by (simp add: getCharacter_here)
  have nd: "\<not> beginsWithDigit (of_char ch)"
    using isSymbol_facts(5) [OF assms(2)] by (simp add: isdigitCh_def)
  have eq: "\<And>c. ((of_char ch :: int) = of_char c) = (ch = c)"
    by (rule of_char_eq_iff)
  have "scanToken s1 =
    (if ch = CHR ''+'' then (\<lparr>name = [ch], type = TOKEN_TYPE_ADD\<rparr>, [], incrementPosition s1)
     else if ch = CHR ''-'' then (\<lparr>name = [ch], type = TOKEN_TYPE_MINUS\<rparr>, [], incrementPosition s1)
     else if ch = CHR ''*'' then (\<lparr>name = [ch], type = TOKEN_TYPE_MUL\<rparr>, [], incrementPosition s1)
     else if ch = CHR ''('' then (\<lparr>name = [ch], type = TOKEN_TYPE_LPAREN\<rparr>, [], incrementPosition s1)
     else if ch = CHR '')'' then (\<lparr>name = [ch], type = TOKEN_TYPE_RPAREN\<rparr>, [], incrementPosition s1)
     else (\<lparr>name = [ch], type = TOKEN_TYPE_NULL\<rparr>,
            [''Unexpected lexical analysis character '' @ [ch] @ [CHR 0x0A]], s1))"
    by (simp only: scanToken_def gc Let_def nd if_False eq char_of_char)
  then show ?thesis
    using assms(2) by (auto simp: isSymbol_def symbolType_def)
qed

lemma scanToken_digits:
  assumes "here s1 = ds @ r" and "digits ds" and "stops r"
  shows "scanToken s1 =
    (\<lparr>name = ds, type = TOKEN_TYPE_INTEGER\<rparr>, [],
     s1\<lparr>currentCharacterIndex := currentCharacterIndex s1 + length ds\<rparr>)"
proof -
  from assms(2) obtain d ds' where ds: "ds = d # ds'" and d: "isdigitCh d"
    by (cases ds) (auto simp: digits_def)
  have stopd: "r = [] \<or> \<not> isdigitCh (hd r)"
    using assms(3) isdigitCh_facts(1) by (auto simp: stops_def)
  have "takeWhile isdigitCh (ds @ r) = ds"
    using assms(2) stopd by (intro takeWhile_prefix) (simp_all add: digits_def)
  then have tw: "takeWhile isdigitCh (here s1) = ds"
    by (simp only: assms(1))
  have first: "beginsWithDigit (getCharacter s1)"
    using assms(1) ds d by (simp add: getCharacter_here isdigitCh_def)
  have after: "here (s1\<lparr>currentCharacterIndex := currentCharacterIndex s1 + length ds\<rparr>) = r"
    using assms(1) by (simp add: here_advance)
  have nextc: "\<not> (isIdentifier (getCharacter (s1\<lparr>currentCharacterIndex := currentCharacterIndex s1 + length ds\<rparr>))
      \<or> getCharacter (s1\<lparr>currentCharacterIndex := currentCharacterIndex s1 + length ds\<rparr>) = of_char CHR ''.'')"
  proof (cases r)
    case Nil
    with after show ?thesis
      by (simp add: getCharacter_here isIdentifier_def beginsWithName_def beginsWithDigit_def)
  next
    case (Cons c r')
    with assms(3) have "\<not> istrailCh c" by (simp add: stops_def)
    moreover have "(of_char c = (of_char CHR ''.'' :: int)) = (c = CHR ''.'')"
      by (metis of_char_eq_iff)
    ultimately show ?thesis using after Cons
      by (simp add: getCharacter_here istrailCh_def)
  qed
  show ?thesis
    using first nextc by (simp add: scanToken_def Let_def collectDigits_eq tw)
qed

lemma peekToken_blanks:
  assumes "here s = ws @ u" and "blanks ws" and "u = [] \<or> \<not> isspaceCh (hd u)"
    and "ws = [] \<longrightarrow> u \<noteq> [] \<and> isprint (of_char (hd u)) \<and> (of_char (hd u) :: int) \<noteq> 0"
  shows "peekToken s =
    (let (t, printed, s2) = scanToken (s\<lparr>currentCharacterIndex := currentCharacterIndex s + length ws\<rparr>)
     in (t, printed, s2\<lparr>nextCharacterIndex := currentCharacterIndex s2,
                       currentCharacterIndex := currentCharacterIndex s\<rparr>))"
proof -
  have hd: "getCharacter s \<noteq> 0 \<and> isprint (getCharacter s)"
  proof (cases ws)
    case Nil
    with assms(1,4) show ?thesis by (cases u) (auto simp: getCharacter_here)
  next
    case (Cons w ws')
    with assms(2) have "w = CHR '' ''" by (simp add: blanks_def)
    with Cons assms(1) show ?thesis by (simp add: getCharacter_here isprint_def)
  qed
  have "takeWhile isspaceCh (ws @ u) = ws"
    using assms(2,3) by (intro takeWhile_prefix) (simp_all add: blanks_def)
  then have "takeWhile isspaceCh (here s) = ws"
    by (simp only: assms(1))
  then have "skipWhitespace s = s\<lparr>currentCharacterIndex := currentCharacterIndex s + length ws\<rparr>"
    by (simp add: skipWhitespace_eq)
  with hd show ?thesis by (simp add: peekToken_def Let_def)
qed

lemma peekToken_symbol:
  assumes "here s = ws @ ch # r" and "blanks ws" and "isSymbol ch"
  shows "peekToken s =
    (\<lparr>name = [ch], type = symbolType ch\<rparr>, [],
     s\<lparr>nextCharacterIndex := currentCharacterIndex s + length ws + 1\<rparr>)"
proof -
  let ?s1 = "s\<lparr>currentCharacterIndex := currentCharacterIndex s + length ws\<rparr>"
  have h1: "here ?s1 = ch # r" using assms(1) by (simp add: here_advance)
  have "peekToken s = (let (t, printed, s2) = scanToken ?s1
     in (t, printed, s2\<lparr>nextCharacterIndex := currentCharacterIndex s2,
                       currentCharacterIndex := currentCharacterIndex s\<rparr>))"
    using assms(1,2) isSymbol_facts [OF assms(3)]
    by (intro peekToken_blanks [where u = "ch # r"]) simp_all
  then show ?thesis
    by (simp add: scanToken_symbol [OF h1 assms(3)] incrementPosition_def)
qed

lemma peekToken_digits:
  assumes "here s = ws @ ds @ r" and "blanks ws" and "digits ds" and "stops r"
  shows "peekToken s =
    (\<lparr>name = ds, type = TOKEN_TYPE_INTEGER\<rparr>, [],
     s\<lparr>nextCharacterIndex := currentCharacterIndex s + length ws + length ds\<rparr>)"
proof -
  let ?s1 = "s\<lparr>currentCharacterIndex := currentCharacterIndex s + length ws\<rparr>"
  from assms(3) obtain d ds' where ds: "ds = d # ds'" and d: "isdigitCh d"
    by (cases ds) (auto simp: digits_def)
  have h1: "here ?s1 = ds @ r" using assms(1) by (simp add: here_advance)
  have "peekToken s = (let (t, printed, s2) = scanToken ?s1
     in (t, printed, s2\<lparr>nextCharacterIndex := currentCharacterIndex s2,
                       currentCharacterIndex := currentCharacterIndex s\<rparr>))"
    using assms(1,2) isdigitCh_facts [OF d] ds
    by (intro peekToken_blanks [where u = "ds @ r"]) simp_all
  then show ?thesis
    by (simp add: scanToken_digits [OF h1 assms(3,4)])
qed

lemma char_of_0: "char_of (0 :: int) = CHR 0x00"
  by (simp add: char_of_def)

lemma scanToken_end:
  assumes "here s1 = []"
  shows "scanToken s1 =
    (\<lparr>name = [CHR 0x00], type = TOKEN_TYPE_NULL\<rparr>,
     [''Unexpected lexical analysis character '' @ [CHR 0x00] @ [CHR 0x0A]], s1)"
  using assms by (simp add: scanToken_def getCharacter_here beginsWithDigit_def char_of_0)

lemma peekToken_end:
  assumes "here s = []"
  shows "peekToken s = (\<lparr>name = [], type = TOKEN_TYPE_NULL\<rparr>, [], s)"
  using assms by (simp add: peekToken_def getCharacter_here)

lemma peekToken_only_blanks:
  assumes "here s = ws" and "blanks ws" and "ws \<noteq> []"
  shows "peekToken s =
    (\<lparr>name = [CHR 0x00], type = TOKEN_TYPE_NULL\<rparr>,
     [''Unexpected lexical analysis character '' @ [CHR 0x00] @ [CHR 0x0A]],
     s\<lparr>nextCharacterIndex := currentCharacterIndex s + length ws\<rparr>)"
proof -
  let ?s1 = "s\<lparr>currentCharacterIndex := currentCharacterIndex s + length ws\<rparr>"
  have h1: "here ?s1 = []" using assms(1) by (simp add: here_advance)
  have "peekToken s = (let (t, printed, s2) = scanToken ?s1
     in (t, printed, s2\<lparr>nextCharacterIndex := currentCharacterIndex s2,
                       currentCharacterIndex := currentCharacterIndex s\<rparr>))"
    using assms by (intro peekToken_blanks [where u = "[]"]) simp_all
  then show ?thesis
    by (simp add: scanToken_end [OF h1])
qed

lemma scanToken_other:
  assumes "here s1 = ch # r" and "\<not> isdigitCh ch" and "\<not> isSymbol ch"
  shows "scanToken s1 =
    (\<lparr>name = [ch], type = TOKEN_TYPE_NULL\<rparr>,
     [''Unexpected lexical analysis character '' @ [ch] @ [CHR 0x0A]], s1)"
proof -
  have gc: "getCharacter s1 = of_char ch"
    using assms(1) by (simp add: getCharacter_here)
  have nd: "\<not> beginsWithDigit (of_char ch)"
    using assms(2) by (simp add: isdigitCh_def)
  have eq: "\<And>c. ((of_char ch :: int) = of_char c) = (ch = c)"
    by (rule of_char_eq_iff)
  have "scanToken s1 =
    (if ch = CHR ''+'' then (\<lparr>name = [ch], type = TOKEN_TYPE_ADD\<rparr>, [], incrementPosition s1)
     else if ch = CHR ''-'' then (\<lparr>name = [ch], type = TOKEN_TYPE_MINUS\<rparr>, [], incrementPosition s1)
     else if ch = CHR ''*'' then (\<lparr>name = [ch], type = TOKEN_TYPE_MUL\<rparr>, [], incrementPosition s1)
     else if ch = CHR ''('' then (\<lparr>name = [ch], type = TOKEN_TYPE_LPAREN\<rparr>, [], incrementPosition s1)
     else if ch = CHR '')'' then (\<lparr>name = [ch], type = TOKEN_TYPE_RPAREN\<rparr>, [], incrementPosition s1)
     else (\<lparr>name = [ch], type = TOKEN_TYPE_NULL\<rparr>,
            [''Unexpected lexical analysis character '' @ [ch] @ [CHR 0x0A]], s1))"
    by (simp only: scanToken_def gc Let_def nd if_False eq char_of_char)
  then show ?thesis
    using assms(3) by (simp add: isSymbol_def)
qed

lemma peekToken_other:
  assumes "here s = ws @ ch # r" and "blanks ws" and "isprint (of_char ch)"
    and "\<not> isspaceCh ch" and "\<not> isdigitCh ch" and "\<not> isSymbol ch"
  shows "peekToken s =
    (\<lparr>name = [ch], type = TOKEN_TYPE_NULL\<rparr>,
     [''Unexpected lexical analysis character '' @ [ch] @ [CHR 0x0A]],
     s\<lparr>nextCharacterIndex := currentCharacterIndex s + length ws\<rparr>)"
proof -
  let ?s1 = "s\<lparr>currentCharacterIndex := currentCharacterIndex s + length ws\<rparr>"
  have h1: "here ?s1 = ch # r" using assms(1) by (simp add: here_advance)
  have "(of_char ch :: int) \<noteq> 0" using assms(3) by (auto simp: isprint_def)
  then have "peekToken s = (let (t, printed, s2) = scanToken ?s1
     in (t, printed, s2\<lparr>nextCharacterIndex := currentCharacterIndex s2,
                       currentCharacterIndex := currentCharacterIndex s\<rparr>))"
    using assms(1-4) by (intro peekToken_blanks [where u = "ch # r"]) simp_all
  then show ?thesis
    by (simp add: scanToken_other [OF h1 assms(5,6)])
qed

lemma scanToken_digits_trailing:
  assumes "here s1 = ds @ tr @ r" and "digits ds"
    and "tr \<noteq> []" and "\<forall>ch\<in>set tr. istrailCh ch" and "\<not> isdigitCh (hd tr)" and "stops r"
  shows "scanToken s1 =
    (\<lparr>name = ds, type = TOKEN_TYPE_INTEGER\<rparr>,
     [''skipping trailing characters for integer'' @ [CHR 0x0A]],
     s1\<lparr>currentCharacterIndex := currentCharacterIndex s1 + length ds + length tr\<rparr>)"
proof -
  let ?s2 = "s1\<lparr>currentCharacterIndex := currentCharacterIndex s1 + length ds\<rparr>"
  from assms(2) obtain d ds' where ds: "ds = d # ds'" and d: "isdigitCh d"
    by (cases ds) (auto simp: digits_def)
  from assms(3) obtain c tr' where tr: "tr = c # tr'" by (cases tr) auto
  have "takeWhile isdigitCh (ds @ (tr @ r)) = ds"
    using assms(2,5) tr by (intro takeWhile_prefix) (simp_all add: digits_def)
  then have tw: "takeWhile isdigitCh (here s1) = ds"
    by (simp only: assms(1))
  have first: "beginsWithDigit (getCharacter s1)"
    using assms(1) ds d by (simp add: getCharacter_here isdigitCh_def)
  have after: "here ?s2 = tr @ r"
    using assms(1) by (simp add: here_advance)
  have "takeWhile istrailCh (tr @ r) = tr"
    using assms(4,6) by (intro takeWhile_prefix) (simp_all add: stops_def)
  then have tw2: "takeWhile istrailCh (here ?s2) = tr"
    by (simp only: after)
  have "(of_char c = (of_char CHR ''.'' :: int)) = (c = CHR ''.'')"
    by (metis of_char_eq_iff)
  moreover have "istrailCh c" using assms(4) tr by simp
  ultimately have nextc: "isIdentifier (getCharacter ?s2) \<or> getCharacter ?s2 = of_char CHR ''.''"
    using after tr by (simp add: getCharacter_here istrailCh_def)
  show ?thesis
    using first nextc tw2
    by (simp add: scanToken_def Let_def collectDigits_eq tw skipTrailing_eq)
qed

lemma peekToken_digits_trailing:
  assumes "here s = ws @ ds @ tr @ r" and "blanks ws" and "digits ds"
    and "tr \<noteq> []" and "\<forall>ch\<in>set tr. istrailCh ch" and "\<not> isdigitCh (hd tr)" and "stops r"
  shows "peekToken s =
    (\<lparr>name = ds, type = TOKEN_TYPE_INTEGER\<rparr>,
     [''skipping trailing characters for integer'' @ [CHR 0x0A]],
     s\<lparr>nextCharacterIndex := currentCharacterIndex s + length ws + length ds + length tr\<rparr>)"
proof -
  let ?s1 = "s\<lparr>currentCharacterIndex := currentCharacterIndex s + length ws\<rparr>"
  from assms(3) obtain d ds' where ds: "ds = d # ds'" and d: "isdigitCh d"
    by (cases ds) (auto simp: digits_def)
  have h1: "here ?s1 = ds @ tr @ r" using assms(1) by (simp add: here_advance)
  have "peekToken s = (let (t, printed, s2) = scanToken ?s1
     in (t, printed, s2\<lparr>nextCharacterIndex := currentCharacterIndex s2,
                       currentCharacterIndex := currentCharacterIndex s\<rparr>))"
    using assms(1,2) isdigitCh_facts [OF d] ds
    by (intro peekToken_blanks [where u = "ds @ tr @ r"]) simp_all
  then show ?thesis
    by (simp add: scanToken_digits_trailing [OF h1 assms(3-7)])
qed

lemma peekToken_unprintable:
  assumes "here s = ch # r" and "ch \<noteq> CHR 0x00" and "\<not> isprint (of_char ch)"
  shows "peekToken s =
    (\<lparr>name = [], type = TOKEN_TYPE_NULL\<rparr>,
     [''Bad lexical analysis stream (no such printable character)'' @ [CHR 0x0A]], s)"
proof -
  have "(of_char ch :: int) \<noteq> 0"
    using assms(2) by (metis of_char_eq_iff of_char_Char horner_sum_simps(1) char_of_0 char_of_char)
  then show ?thesis
    using assms by (simp add: peekToken_def getCharacter_here)
qed

section \<open>\<^verbatim>\<open>peekToken\<close> and the stored scan position\<close>

lemma getCharacter_nextCharacterIndex [simp]:
  "getCharacter (s\<lparr>nextCharacterIndex := n\<rparr>) = getCharacter s"
  by (simp add: getCharacter_def)

lemma skipWhitespace_nextCharacterIndex:
  "skipWhitespace (s\<lparr>nextCharacterIndex := n\<rparr>) = (skipWhitespace s)\<lparr>nextCharacterIndex := n\<rparr>"
  by (simp add: skipWhitespace_eq)

lemma skipTrailing_nextCharacterIndex:
  "skipTrailing (s\<lparr>nextCharacterIndex := n\<rparr>) = (skipTrailing s)\<lparr>nextCharacterIndex := n\<rparr>"
  by (simp add: skipTrailing_eq)

lemma collectDigits_nextCharacterIndex:
  "collectDigits nm (s\<lparr>nextCharacterIndex := n\<rparr>) =
     (fst (collectDigits nm s), (snd (collectDigits nm s))\<lparr>nextCharacterIndex := n\<rparr>)"
  by (simp add: collectDigits_eq)

lemma incrementPosition_nextCharacterIndex:
  "incrementPosition (s\<lparr>nextCharacterIndex := n\<rparr>) = (incrementPosition s)\<lparr>nextCharacterIndex := n\<rparr>"
  by (simp add: incrementPosition_def)

lemma scanToken_nextCharacterIndex:
  "scanToken (s\<lparr>nextCharacterIndex := n\<rparr>) =
     (fst (scanToken s), fst (snd (scanToken s)),
      (snd (snd (scanToken s)))\<lparr>nextCharacterIndex := n\<rparr>)"
  by (simp add: scanToken_def Let_def split_beta collectDigits_nextCharacterIndex
      skipTrailing_nextCharacterIndex incrementPosition_nextCharacterIndex)

text \<open>Only the cursor and the buffer decide what \<^verbatim>\<open>peekToken\<close> returns and prints.\<close>

lemma peekToken_nextCharacterIndex:
  "fst (peekToken (s\<lparr>nextCharacterIndex := n\<rparr>)) = fst (peekToken s)"
  "fst (snd (peekToken (s\<lparr>nextCharacterIndex := n\<rparr>))) = fst (snd (peekToken s))"
  "snd (snd (peekToken (s\<lparr>nextCharacterIndex := n\<rparr>))) =
     (if getCharacter s = 0 \<or> \<not> isprint (getCharacter s) then s\<lparr>nextCharacterIndex := n\<rparr>
      else snd (snd (peekToken s)))"
  by (simp_all add: peekToken_def Let_def split_beta skipWhitespace_nextCharacterIndex
      scanToken_nextCharacterIndex)

lemma peekToken_only_sets_next:
  "\<exists>k. snd (snd (peekToken s)) = s\<lparr>nextCharacterIndex := k\<rparr>"
proof (cases "getCharacter s = 0 \<or> \<not> isprint (getCharacter s)")
  case True
  then have "snd (snd (peekToken s)) = s\<lparr>nextCharacterIndex := nextCharacterIndex s\<rparr>"
    by (auto simp: peekToken_def Let_def)
  then show ?thesis ..
next
  case False
  obtain t printed s2 where sc: "scanToken (skipWhitespace s) = (t, printed, s2)"
    by (cases "scanToken (skipWhitespace s)") auto
  from scanToken_frame [OF sc]
  have "buffer s2 = buffer s" by (simp add: skipWhitespace_eq)
  then have "snd (snd (peekToken s)) = s\<lparr>nextCharacterIndex := currentCharacterIndex s2\<rparr>"
    using False sc by (cases s, cases s2) (simp add: peekToken_def Let_def)
  then show ?thesis ..
qed

lemma peekToken_twice: "peekToken (snd (snd (peekToken s))) = peekToken s"
proof -
  obtain k where k: "snd (snd (peekToken s)) = s\<lparr>nextCharacterIndex := k\<rparr>"
    using peekToken_only_sets_next by blast
  have "snd (snd (peekToken (s\<lparr>nextCharacterIndex := k\<rparr>))) = snd (snd (peekToken s))"
    using k by (simp add: peekToken_nextCharacterIndex(3))
  then show ?thesis
    using peekToken_nextCharacterIndex(1,2) [where s = s and n = k]
    by (simp add: k prod_eq_iff)
qed

section \<open>Running the parser on given texts\<close>

lemmas run_defs = parseText_def evaluateText_def s_setBuffer_def setBuffer_def s_peekToken_def
  s_nextToken_def peekToken_def scanToken_def nextToken_def getCharacter_def
  incrementPosition_def isprint_def isspace_def beginsWithDigit_def isIdentifier_def
  beginsWithName_def matchToken_def matchTerm_def matchFactor_def createLiteralTree_def
  createBinaryExpressionTree_def printf_def c_str_def Let_def skipWhitespace.simps
  collectDigits.simps skipTrailing.simps atoll_def LLONG_MAX_def LLONG_MIN_def char_of_def
  parsePrimary.simps parseMultiplicativeExpression.simps parseAdditiveExpression.simps

text \<open>
  Claim C3. Whatever state the process is in when the buffer is loaded, the three
  expressions of the table \<^verbatim>\<open>evaluations\<close> parse and evaluate to 28, 56 and 108,
  which are the results the table expects.
\<close>

theorem evaluations_values:
  "evaluateText ''4 + 3 * 8'' g = 28
   \<and> evaluateText ''(4 + 3) * 8'' g = 56
   \<and> evaluateText ''(4 + 3 * 8) + 8 * 8 + (4 * 4)'' g = 108
   \<and> map (\<lambda>t. evaluateText (test_buffer t) g) evaluations = map test_result evaluations"
proof -
  have "evaluateText ''4 + 3 * 8'' g = 28" by (simp add: run_defs)
  moreover have "evaluateText ''(4 + 3) * 8'' g = 56" by (simp add: run_defs)
  moreover have "evaluateText ''(4 + 3 * 8) + 8 * 8 + (4 * 4)'' g = 108" by (simp add: run_defs)
  ultimately show ?thesis by (simp add: evaluations_def)
qed

text \<open>
  Claim C9. A binary node tagged \<^verbatim>\<open>+\<close>, \<^verbatim>\<open>-\<close> or \<^verbatim>\<open>*\<close> evaluates to the sum, the
  difference (left minus right) or the product of the values of its children,
  reduced modulo \<open>2\<^sup>6\<^sup>4\<close>; nothing is raised on overflow. The text \<^verbatim>\<open>2 - 3\<close>
  evaluates to \<open>2\<^sup>6\<^sup>4 - 1 = 18446744073709551615\<close>.
\<close>

theorem binary_arithmetic_wraps:
  "uint (evaluateConstantExpressionTree (BinaryExpressionTree TOKEN_TYPE_ADD l r)) =
     (uint (evaluateConstantExpressionTree l) + uint (evaluateConstantExpressionTree r)) mod 2 ^ 64
   \<and> uint (evaluateConstantExpressionTree (BinaryExpressionTree TOKEN_TYPE_MINUS l r)) =
     (uint (evaluateConstantExpressionTree l) - uint (evaluateConstantExpressionTree r)) mod 2 ^ 64
   \<and> uint (evaluateConstantExpressionTree (BinaryExpressionTree TOKEN_TYPE_MUL l r)) =
     (uint (evaluateConstantExpressionTree l) * uint (evaluateConstantExpressionTree r)) mod 2 ^ 64
   \<and> uint (evaluateText ''2 - 3'' g) = 2 ^ 64 - 1
   \<and> uint (evaluateText ''2 - 3'' g) = 18446744073709551615"
proof -
  have "evaluateText ''2 - 3'' g = - 1" by (simp add: run_defs)
  then have "uint (evaluateText ''2 - 3'' g) = 18446744073709551615"
    by (simp add: uint_word_ariths)
  then show ?thesis by (simp add: Let_def uint_word_ariths)
qed

text \<open>
  Claim C7. On \<^verbatim>\<open>(4 + 3\<close> the parser builds the three nodes of \<^verbatim>\<open>4 + 3\<close> after the
  left parenthesis, then finds no right parenthesis: it prints
  \<^verbatim>\<open>Expected right parantheses match\<close>, releases the three nodes again (the number
  of live nodes is what it was before the parse) and \<^verbatim>\<open>parseExpression\<close> returns the
  null tree, which evaluates to 0.
\<close>

theorem unmatched_parenthesis:
  "parseExpression (s_nextToken (snd (s_peekToken (s_setBuffer ''(4 + 3'' g)))) =
     (BinaryExpressionTree TOKEN_TYPE_ADD
        (LiteralTree \<lparr>name = ''4'', type = TOKEN_TYPE_INTEGER\<rparr>)
        (LiteralTree \<lparr>name = ''3'', type = TOKEN_TYPE_INTEGER\<rparr>),
      g\<lparr>scanner := \<lparr>buffer = ''(4 + 3'', currentCharacterIndex = 6, nextCharacterIndex = 6\<rparr>,
        liveNodes := liveNodes g + 3\<rparr>)
   \<and> parseText ''(4 + 3'' g =
     (NullTree,
      g\<lparr>scanner := \<lparr>buffer = ''(4 + 3'', currentCharacterIndex = 6, nextCharacterIndex = 6\<rparr>,
        console := console g @ [''Expected right parantheses match'' @ [CHR 0x0A]]\<rparr>)
   \<and> liveNodes (snd (parseText ''(4 + 3'' g)) = liveNodes g
   \<and> evaluateText ''(4 + 3'' g = 0"
proof -
  have "parseExpression (s_nextToken (snd (s_peekToken (s_setBuffer ''(4 + 3'' g)))) =
     (BinaryExpressionTree TOKEN_TYPE_ADD
        (LiteralTree \<lparr>name = ''4'', type = TOKEN_TYPE_INTEGER\<rparr>)
        (LiteralTree \<lparr>name = ''3'', type = TOKEN_TYPE_INTEGER\<rparr>),
      g\<lparr>scanner := \<lparr>buffer = ''(4 + 3'', currentCharacterIndex = 6, nextCharacterIndex = 6\<rparr>,
        liveNodes := liveNodes g + 3\<rparr>)"
    by (simp add: run_defs)
  moreover have p: "parseText ''(4 + 3'' g =
     (NullTree,
      g\<lparr>scanner := \<lparr>buffer = ''(4 + 3'', currentCharacterIndex = 6, nextCharacterIndex = 6\<rparr>,
        console := console g @ [''Expected right parantheses match'' @ [CHR 0x0A]]\<rparr>)"
    by (simp add: run_defs)
  moreover have "evaluateText ''(4 + 3'' g = 0"
    by (simp add: evaluateText_def p)
  ultimately show ?thesis by simp
qed

text \<open>
  Claim C5. For every buffer and every cursor position, a second \<^verbatim>\<open>peekToken\<close> right
  after a first one returns the same token, and the cursor (\<^verbatim>\<open>currentCharacterIndex\<close>)
  and the buffer are after both calls what they were before the first. The same
  holds of the global scanner the parser peeks through.
\<close>

theorem peek_idempotent:
  "fst (peekToken (snd (snd (peekToken s)))) = fst (peekToken s)
   \<and> currentCharacterIndex (snd (snd (peekToken s))) = currentCharacterIndex s
   \<and> currentCharacterIndex (snd (snd (peekToken (snd (snd (peekToken s)))))) =
       currentCharacterIndex s
   \<and> buffer (snd (snd (peekToken (snd (snd (peekToken s)))))) = buffer s
   \<and> fst (s_peekToken (snd (s_peekToken g))) = fst (s_peekToken g)
   \<and> currentCharacterIndex (scanner (snd (s_peekToken (snd (s_peekToken g))))) =
       currentCharacterIndex (scanner g)"
proof -
  obtain t printed s' where pk: "peekToken s = (t, printed, s')"
    by (cases "peekToken s") auto
  obtain t2 printed2 s2 where pk2: "peekToken (scanner g) = (t2, printed2, s2)"
    by (cases "peekToken (scanner g)") auto
  have "peekToken s' = (t, printed, s')"
    using peekToken_twice [of s] pk by simp
  moreover have "peekToken s2 = (t2, printed2, s2)"
    using peekToken_twice [of "scanner g"] pk2 by simp
  ultimately show ?thesis
    using peekToken_frame [OF pk] peekToken_frame [OF pk2] pk pk2
    by (simp add: s_peekToken_def)
qed

text \<open>
  Claim C6. On \<^verbatim>\<open>123abc\<close> \<^verbatim>\<open>peekToken\<close> returns one integer token with the text
  \<^verbatim>\<open>123\<close>, prints one line, and stores the position after \<^verbatim>\<open>abc\<close>, which
  \<^verbatim>\<open>nextToken\<close> makes the cursor; the next \<^verbatim>\<open>peekToken\<close> finds the end of the input.
  In general: after a skipped run of whitespace, a longest run of digits \<open>ds\<close>
  followed by a longest nonempty run \<open>tr\<close> of letters, digits, underscores and dots
  (not starting with a digit) is returned as the integer token \<open>ds\<close>, one line is
  printed, and the unread text after \<^verbatim>\<open>nextToken\<close> is what follows \<open>tr\<close>.
\<close>

theorem malformed_literal:
  "peekToken \<lparr>buffer = ''123abc'', currentCharacterIndex = 0, nextCharacterIndex = n\<rparr> =
     (\<lparr>name = ''123'', type = TOKEN_TYPE_INTEGER\<rparr>,
      [''skipping trailing characters for integer'' @ [CHR 0x0A]],
      \<lparr>buffer = ''123abc'', currentCharacterIndex = 0, nextCharacterIndex = 6\<rparr>)
   \<and> nextToken \<lparr>buffer = ''123abc'', currentCharacterIndex = 0, nextCharacterIndex = 6\<rparr> =
       \<lparr>buffer = ''123abc'', currentCharacterIndex = 6, nextCharacterIndex = 6\<rparr>
   \<and> peekToken \<lparr>buffer = ''123abc'', currentCharacterIndex = 6, nextCharacterIndex = 6\<rparr> =
       (\<lparr>name = [], type = TOKEN_TYPE_NULL\<rparr>, [],
        \<lparr>buffer = ''123abc'', currentCharacterIndex = 6, nextCharacterIndex = 6\<rparr>)
   \<and> (\<forall>s ws ds tr r.
        here s = ws @ ds @ tr @ r \<and> blanks ws \<and> digits ds
        \<and> tr \<noteq> [] \<and> (\<forall>ch\<in>set tr. istrailCh ch) \<and> \<not> isdigitCh (hd tr) \<and> stops r
        \<longrightarrow> peekToken s =
            (\<lparr>name = ds, type = TOKEN_TYPE_INTEGER\<rparr>,
             [''skipping trailing characters for integer'' @ [CHR 0x0A]],
             s\<lparr>nextCharacterIndex :=
                 currentCharacterIndex s + length ws + length ds + length tr\<rparr>)
          \<and> here (nextToken (s\<lparr>nextCharacterIndex :=
                 currentCharacterIndex s + length ws + length ds + length tr\<rparr>)) = r)"
proof -
  have "peekToken \<lparr>buffer = ''123abc'', currentCharacterIndex = 0, nextCharacterIndex = n\<rparr> =
     (\<lparr>name = ''123'', type = TOKEN_TYPE_INTEGER\<rparr>,
      [''skipping trailing characters for integer'' @ [CHR 0x0A]],
      \<lparr>buffer = ''123abc'', currentCharacterIndex = 0, nextCharacterIndex = 6\<rparr>)"
    by (simp add: run_defs)
  moreover have "peekToken \<lparr>buffer = ''123abc'', currentCharacterIndex = 6, nextCharacterIndex = 6\<rparr> =
       (\<lparr>name = [], type = TOKEN_TYPE_NULL\<rparr>, [],
        \<lparr>buffer = ''123abc'', currentCharacterIndex = 6, nextCharacterIndex = 6\<rparr>)"
    by (simp add: run_defs)
  moreover have "nextToken \<lparr>buffer = ''123abc'', currentCharacterIndex = 0, nextCharacterIndex = 6\<rparr> =
       \<lparr>buffer = ''123abc'', currentCharacterIndex = 6, nextCharacterIndex = 6\<rparr>"
    by (simp add: nextToken_def)
  moreover have "\<forall>s ws ds tr r.
        here s = ws @ ds @ tr @ r \<and> blanks ws \<and> digits ds
        \<and> tr \<noteq> [] \<and> (\<forall>ch\<in>set tr. istrailCh ch) \<and> \<not> isdigitCh (hd tr) \<and> stops r
        \<longrightarrow> peekToken s =
            (\<lparr>name = ds, type = TOKEN_TYPE_INTEGER\<rparr>,
             [''skipping trailing characters for integer'' @ [CHR 0x0A]],
             s\<lparr>nextCharacterIndex :=
                 currentCharacterIndex s + length ws + length ds + length tr\<rparr>)
          \<and> here (nextToken (s\<lparr>nextCharacterIndex :=
                 currentCharacterIndex s + length ws + length ds + length tr\<rparr>)) = r"
  proof (intro allI impI, elim conjE, intro conjI)
    fix s :: Scanner and ws ds tr r
    assume h: "here s = ws @ ds @ tr @ r" and "blanks ws" "digits ds" "tr \<noteq> []"
      "\<forall>ch\<in>set tr. istrailCh ch" "\<not> isdigitCh (hd tr)" "stops r"
    then show "peekToken s =
            (\<lparr>name = ds, type = TOKEN_TYPE_INTEGER\<rparr>,
             [''skipping trailing characters for integer'' @ [CHR 0x0A]],
             s\<lparr>nextCharacterIndex :=
                 currentCharacterIndex s + length ws + length ds + length tr\<rparr>)"
      by (rule peekToken_digits_trailing)
    have "drop (length ws + length ds + length tr) (here s) = r"
      by (simp add: h)
    then show "here (nextToken (s\<lparr>nextCharacterIndex :=
                 currentCharacterIndex s + length ws + length ds + length tr\<rparr>)) = r"
      by (simp add: here_def nextToken_def add.commute add.left_commute)
  qed
  ultimately show ?thesis
    by blast
qed

text \<open>The general part of C6 at the cursor 1 of \<^verbatim>\<open>x 12.5e3+1\<close>.\<close>

theorem malformed_literal_witness:
  "here \<lparr>buffer = ''x 12.5e3+1'', currentCharacterIndex = 1, nextCharacterIndex = 0\<rparr> =
      '' '' @ ''12'' @ ''.5e3'' @ ''+1''
   \<and> blanks '' '' \<and> digits ''12'' \<and> list_all istrailCh ''.5e3''
   \<and> \<not> isdigitCh (hd ''.5e3'') \<and> stops ''+1''
   \<and> peekToken \<lparr>buffer = ''x 12.5e3+1'', currentCharacterIndex = 1, nextCharacterIndex = 0\<rparr> =
         (\<lparr>name = ''12'', type = TOKEN_TYPE_INTEGER\<rparr>,
          [''skipping trailing characters for integer'' @ [CHR 0x0A]],
          \<lparr>buffer = ''x 12.5e3+1'', currentCharacterIndex = 1, nextCharacterIndex = 8\<rparr>)
   \<and> here (nextToken
         \<lparr>buffer = ''x 12.5e3+1'', currentCharacterIndex = 1, nextCharacterIndex = 8\<rparr>) = ''+1''"
proof -
  let ?s = "\<lparr>buffer = ''x 12.5e3+1'', currentCharacterIndex = 1, nextCharacterIndex = 0\<rparr>"
  have hyps: "here ?s = '' '' @ ''12'' @ ''.5e3'' @ ''+1'' \<and> blanks '' '' \<and> digits ''12''
       \<and> ''.5e3'' \<noteq> [] \<and> (\<forall>ch\<in>set ''.5e3''. istrailCh ch) \<and> \<not> isdigitCh (hd ''.5e3'')
       \<and> stops ''+1''"
    by (simp add: here_def blanks_def digits_def stops_def istrailCh_def isdigitCh_def
        isspaceCh_def isspace_def isIdentifier_def beginsWithName_def beginsWithDigit_def)
  have "here (nextToken
         \<lparr>buffer = ''x 12.5e3+1'', currentCharacterIndex = 1, nextCharacterIndex = 8\<rparr>) = ''+1''"
    by (simp add: here_def nextToken_def)
  with malformed_literal [THEN conjunct2, THEN conjunct2, THEN conjunct2, rule_format, OF hyps]
  show ?thesis using hyps by simp
qed

text \<open>
  Claim C4, as stated, fails: on a tab followed by \<^verbatim>\<open>7\<close>, and on a newline followed
  by \<^verbatim>\<open>7\<close>, \<^verbatim>\<open>peekToken\<close> returns a null token and the line
  \<^verbatim>\<open>Bad lexical analysis stream\<close>, not the integer token \<^verbatim>\<open>7\<close>: the \<^verbatim>\<open>isprint\<close> test
  comes before the loop that skips whitespace, and neither character is printable.
\<close>

theorem peek_tab_counterexample:
  "peekToken \<lparr>buffer = [CHR 0x09, CHR ''7''], currentCharacterIndex = 0, nextCharacterIndex = 0\<rparr> =
     (\<lparr>name = [], type = TOKEN_TYPE_NULL\<rparr>,
      [''Bad lexical analysis stream (no such printable character)'' @ [CHR 0x0A]],
      \<lparr>buffer = [CHR 0x09, CHR ''7''], currentCharacterIndex = 0, nextCharacterIndex = 0\<rparr>)
   \<and> fst (peekToken \<lparr>buffer = [CHR 0x09, CHR ''7''], currentCharacterIndex = 0,
                       nextCharacterIndex = 0\<rparr>) \<noteq> \<lparr>name = ''7'', type = TOKEN_TYPE_INTEGER\<rparr>
   \<and> peekToken \<lparr>buffer = [CHR 0x0A, CHR ''7''], currentCharacterIndex = 0, nextCharacterIndex = 0\<rparr> =
     (\<lparr>name = [], type = TOKEN_TYPE_NULL\<rparr>,
      [''Bad lexical analysis stream (no such printable character)'' @ [CHR 0x0A]],
      \<lparr>buffer = [CHR 0x0A, CHR ''7''], currentCharacterIndex = 0, nextCharacterIndex = 0\<rparr>)
   \<and> fst (peekToken \<lparr>buffer = [CHR 0x0A, CHR ''7''], currentCharacterIndex = 0,
                       nextCharacterIndex = 0\<rparr>) \<noteq> \<lparr>name = ''7'', type = TOKEN_TYPE_INTEGER\<rparr>"
  by (simp add: run_defs)

text \<open>
  Claim C4, amended. When the whitespace at the cursor is empty or starts with a
  blank (and goes on with any whitespace characters), \<^verbatim>\<open>peekToken\<close> skips it and
  returns the token that follows: one of the five symbols, or an integer. When the
  character at the cursor is a whitespace character other than the blank,
  \<^verbatim>\<open>peekToken\<close> skips nothing, prints \<^verbatim>\<open>Bad lexical analysis stream\<close> and returns a
  null token.
\<close>

theorem peek_skips_whitespace_after_blank:
  "(here s = ws @ ch # r \<and> blanks ws \<and> isSymbol ch \<longrightarrow>
      peekToken s =
        (\<lparr>name = [ch], type = symbolType ch\<rparr>, [],
         s\<lparr>nextCharacterIndex := currentCharacterIndex s + length ws + 1\<rparr>))
   \<and> (here s = ws @ ds @ r \<and> blanks ws \<and> digits ds \<and> stops r \<longrightarrow>
      peekToken s =
        (\<lparr>name = ds, type = TOKEN_TYPE_INTEGER\<rparr>, [],
         s\<lparr>nextCharacterIndex := currentCharacterIndex s + length ws + length ds\<rparr>))
   \<and> (here s = ch # r \<and> isspaceCh ch \<and> ch \<noteq> CHR '' '' \<longrightarrow>
      peekToken s =
        (\<lparr>name = [], type = TOKEN_TYPE_NULL\<rparr>,
         [''Bad lexical analysis stream (no such printable character)'' @ [CHR 0x0A]], s))"
proof (intro conjI impI; elim conjE)
  assume "here s = ws @ ch # r" "blanks ws" "isSymbol ch"
  then show "peekToken s =
        (\<lparr>name = [ch], type = symbolType ch\<rparr>, [],
         s\<lparr>nextCharacterIndex := currentCharacterIndex s + length ws + 1\<rparr>)"
    by (rule peekToken_symbol)
next
  assume "here s = ws @ ds @ r" "blanks ws" "digits ds" "stops r"
  then show "peekToken s =
        (\<lparr>name = ds, type = TOKEN_TYPE_INTEGER\<rparr>, [],
         s\<lparr>nextCharacterIndex := currentCharacterIndex s + length ws + length ds\<rparr>)"
    by (rule peekToken_digits)
next
  assume h: "here s = ch # r" and sp: "isspaceCh ch" and nb: "ch \<noteq> CHR '' ''"
  have "(of_char ch :: int) \<noteq> of_char CHR '' ''"
    using nb by (simp only: of_char_eq_iff not_False_eq_True)
  then have "\<not> isprint (of_char ch)" and "(of_char ch :: int) \<noteq> of_char CHR 0x00"
    using sp by (auto simp: isspaceCh_def isspace_def isprint_def)
  then have "\<not> isprint (of_char ch)" and "ch \<noteq> CHR 0x00"
    by (simp_all only: of_char_eq_iff not_False_eq_True)
  with h show "peekToken s =
        (\<lparr>name = [], type = TOKEN_TYPE_NULL\<rparr>,
         [''Bad lexical analysis stream (no such printable character)'' @ [CHR 0x0A]], s)"
    by (intro peekToken_unprintable)
qed

text \<open>The amended C4 on blank, tab, newline, \<^verbatim>\<open>7\<close>; on blank, tab, \<^verbatim>\<open>*\<close>; and on a
  carriage return.\<close>

theorem peek_skips_whitespace_after_blank_witness:
  "peekToken \<lparr>buffer = [CHR '' '', CHR 0x09, CHR 0x0A, CHR ''7''], currentCharacterIndex = 0,
       nextCharacterIndex = 0\<rparr> =
     (\<lparr>name = ''7'', type = TOKEN_TYPE_INTEGER\<rparr>, [],
      \<lparr>buffer = [CHR '' '', CHR 0x09, CHR 0x0A, CHR ''7''], currentCharacterIndex = 0,
         nextCharacterIndex = 4\<rparr>)
   \<and> peekToken \<lparr>buffer = [CHR '' '', CHR 0x09, CHR ''*'', CHR ''7''], currentCharacterIndex = 0,
       nextCharacterIndex = 0\<rparr> =
     (\<lparr>name = ''*'', type = TOKEN_TYPE_MUL\<rparr>, [],
      \<lparr>buffer = [CHR '' '', CHR 0x09, CHR ''*'', CHR ''7''], currentCharacterIndex = 0,
         nextCharacterIndex = 3\<rparr>)
   \<and> peekToken \<lparr>buffer = [CHR 0x0D, CHR ''7''], currentCharacterIndex = 0,
       nextCharacterIndex = 0\<rparr> =
     (\<lparr>name = [], type = TOKEN_TYPE_NULL\<rparr>,
      [''Bad lexical analysis stream (no such printable character)'' @ [CHR 0x0A]],
      \<lparr>buffer = [CHR 0x0D, CHR ''7''], currentCharacterIndex = 0, nextCharacterIndex = 0\<rparr>)"
proof -
  let ?s1 = "\<lparr>buffer = [CHR '' '', CHR 0x09, CHR 0x0A, CHR ''7''], currentCharacterIndex = 0,
       nextCharacterIndex = 0\<rparr>"
  let ?s2 = "\<lparr>buffer = [CHR '' '', CHR 0x09, CHR ''*'', CHR ''7''], currentCharacterIndex = 0,
       nextCharacterIndex = 0\<rparr>"
  let ?s3 = "\<lparr>buffer = [CHR 0x0D, CHR ''7''], currentCharacterIndex = 0,
       nextCharacterIndex = 0\<rparr>"
  have h1: "here ?s1 = [CHR '' '', CHR 0x09, CHR 0x0A] @ ''7'' @ []
      \<and> blanks [CHR '' '', CHR 0x09, CHR 0x0A] \<and> digits ''7'' \<and> stops []"
    by (simp add: here_def blanks_def digits_def stops_def isdigitCh_def
        isspaceCh_def isspace_def beginsWithDigit_def)
  have h2: "here ?s2 = [CHR '' '', CHR 0x09] @ CHR ''*'' # ''7''
      \<and> blanks [CHR '' '', CHR 0x09] \<and> isSymbol CHR ''*''"
    by (simp add: here_def blanks_def isSymbol_def isspaceCh_def isspace_def)
  have h3: "here ?s3 = CHR 0x0D # ''7'' \<and> isspaceCh CHR 0x0D \<and> CHR 0x0D \<noteq> CHR '' ''"
    by (simp add: here_def isspaceCh_def isspace_def)
  from peek_skips_whitespace_after_blank [THEN conjunct2, THEN conjunct1, rule_format, OF h1]
    peek_skips_whitespace_after_blank [THEN conjunct1, rule_format, OF h2]
    peek_skips_whitespace_after_blank [THEN conjunct2, THEN conjunct2, rule_format, OF h3]
  show ?thesis by (simp add: symbolType_def)
qed

lemma s_peekToken_eq:
  "peekToken (scanner g) = (t, msgs, s') \<Longrightarrow>
     s_peekToken g = (t, g\<lparr>scanner := s', console := console g @ msgs\<rparr>)"
  by (simp add: s_peekToken_def)

text \<open>
  When the first token is \<^verbatim>\<open>TOKEN_TYPE_NULL\<close>, whatever the reason, \<^verbatim>\<open>parsePrimary\<close>
  reports a syntax error, and the two levels above it peek again, see the same token
  and return the null tree.
\<close>

lemma parseExpression_null_token:
  assumes pk: "peekToken (scanner g) = (t, msgs, s')" and ty: "type t = TOKEN_TYPE_NULL"
  shows "parseExpression g =
    (NullTree,
     g\<lparr>scanner := s',
       console := console g @ msgs @ [''Syntax error in '' @ c_str (name t) @ [CHR 0x0A]]
                    @ msgs @ msgs\<rparr>)"
proof -
  let ?line = "''Syntax error in '' @ c_str (name t) @ [CHR 0x0A]"
  have again: "peekToken s' = (t, msgs, s')"
    using peekToken_twice [of "scanner g"] pk by simp
  have p: "parsePrimary g = (NullTree, g\<lparr>scanner := s', console := console g @ msgs @ [?line]\<rparr>)"
    using ty by (simp add: parsePrimary.simps [of g] s_peekToken_eq [OF pk] matchToken_def printf_def)
  have m: "parseMultiplicativeExpression g =
      (NullTree, g\<lparr>scanner := s', console := console g @ msgs @ [?line] @ msgs\<rparr>)"
    using ty again
    by (simp add: parseMultiplicativeExpression.simps [of g] p s_peekToken_def matchFactor_def)
  have "parseAdditiveExpression g =
      (NullTree, g\<lparr>scanner := s', console := console g @ msgs @ [?line] @ msgs @ msgs\<rparr>)"
    using ty again
    by (simp add: parseAdditiveExpression.simps [of g] m s_peekToken_def matchTerm_def)
  then show ?thesis by simp
qed

lemma peekToken_whitespace_only:
  assumes "here s = ws" and "\<forall>ch\<in>set ws. isspaceCh ch"
  shows "type (fst (peekToken s)) = TOKEN_TYPE_NULL \<and> c_str (name (fst (peekToken s))) = []"
proof (cases ws)
  case Nil
  with assms(1) show ?thesis by (simp add: peekToken_end c_str_def)
next
  case (Cons ch r)
  show ?thesis
  proof (cases "ch = CHR '' ''")
    case True
    with Cons assms(2) have "blanks ws" by (simp add: blanks_def)
    from peekToken_only_blanks [OF assms(1) this] Cons show ?thesis by (simp add: c_str_def)
  next
    case False
    have sp: "isspaceCh ch" using assms(2) Cons by simp
    have "(of_char ch :: int) \<noteq> of_char CHR '' ''"
      using False by (simp only: of_char_eq_iff not_False_eq_True)
    then have "\<not> isprint (of_char ch)" and "(of_char ch :: int) \<noteq> of_char CHR 0x00"
      using sp by (auto simp: isspaceCh_def isspace_def isprint_def)
    then have "\<not> isprint (of_char ch)" and "ch \<noteq> CHR 0x00"
      by (simp_all only: of_char_eq_iff not_False_eq_True)
    with assms(1) Cons have "peekToken s =
        (\<lparr>name = [], type = TOKEN_TYPE_NULL\<rparr>,
         [''Bad lexical analysis stream (no such printable character)'' @ [CHR 0x0A]], s)"
      by (intro peekToken_unprintable) simp_all
    then show ?thesis by (simp add: c_str_def)
  qed
qed

lemma here_setBuffer [simp]: "here (setBuffer buf s) = buf"
  by (simp add: here_def setBuffer_def)

lemma parseText_whitespace_only:
  assumes "\<forall>ch\<in>set ws. isspaceCh ch"
  shows "fst (parseText ws g) = NullTree"
    and "''Syntax error in '' @ [CHR 0x0A] \<in> set (console (snd (parseText ws g)))"
    and "liveNodes (snd (parseText ws g)) = liveNodes g"
proof -
  let ?g0 = "s_setBuffer ws g"
  obtain t msgs s' where pk: "peekToken (scanner ?g0) = (t, msgs, s')"
    by (cases "peekToken (scanner ?g0)") auto
  have "here (scanner ?g0) = ws" by (simp add: s_setBuffer_def)
  from peekToken_whitespace_only [OF this assms] pk
  have ty: "type t = TOKEN_TYPE_NULL" and nm: "c_str (name t) = []" by simp_all
  from parseExpression_null_token [OF pk ty] nm
  show "fst (parseText ws g) = NullTree"
    and "''Syntax error in '' @ [CHR 0x0A] \<in> set (console (snd (parseText ws g)))"
    and "liveNodes (snd (parseText ws g)) = liveNodes g"
    by (simp_all add: parseText_def s_setBuffer_def)
qed

lemma parseAdditiveExpression_wraps:
  assumes "parseMultiplicativeExpression g = (a, g1)" and "s_peekToken g1 = (tok, g2)"
    and "matchTerm tok" and "parseMultiplicativeExpression (s_nextToken g2) = (b, g3)"
  shows "fst (parseAdditiveExpression g) = BinaryExpressionTree (type tok) a b
    \<or> (\<exists>op c. fst (parseAdditiveExpression g) =
          BinaryExpressionTree op (BinaryExpressionTree (type tok) a b) c)"
  using assms
  by (simp add: parseAdditiveExpression.simps [of g] createBinaryExpressionTree_def Let_def
      split_beta)

lemma parseMultiplicativeExpression_wraps:
  assumes "parsePrimary g = (a, g1)" and "s_peekToken g1 = (tok, g2)"
    and "matchFactor tok" and "parsePrimary (s_nextToken g2) = (b, g3)"
  shows "fst (parseMultiplicativeExpression g) = BinaryExpressionTree (type tok) a b
    \<or> (\<exists>op c. fst (parseMultiplicativeExpression g) =
          BinaryExpressionTree op (BinaryExpressionTree (type tok) a b) c)"
  using assms
  by (simp add: parseMultiplicativeExpression.simps [of g] createBinaryExpressionTree_def Let_def
      split_beta)

text \<open>
  Claim C8. Parsing and evaluating are total functions, so every text has a tree
  and a value. The null tree evaluates to 0. A text of whitespace only (the empty
  text included) parses to the null tree, with the line \<^verbatim>\<open>Syntax error in\<close> printed,
  and evaluates to 0. The additive and the multiplicative parser put their first
  two operands under a binary node whether or not one of them is the null tree, and
  a null child of a binary node counts as 0. The text \<^verbatim>\<open>+ 5\<close> parses to the binary
  node \<^verbatim>\<open>+\<close> of the null tree and the literal 5, and evaluates to 5.
\<close>

theorem null_child_evaluates_to_zero:
  "(\<exists>t g' v. parseText buf g = (t, g') \<and> evaluateText buf g = v
       \<and> v = evaluateConstantExpressionTree t)
   \<and> evaluateConstantExpressionTree NullTree = 0
   \<and> ((\<forall>ch\<in>set ws. isspaceCh ch) \<longrightarrow>
         fst (parseText ws g) = NullTree \<and> evaluateText ws g = 0
         \<and> ''Syntax error in '' @ [CHR 0x0A] \<in> set (console (snd (parseText ws g))))
   \<and> (parseMultiplicativeExpression g = (a, g1) \<and> s_peekToken g1 = (tok, g2) \<and> matchTerm tok
        \<and> parseMultiplicativeExpression (s_nextToken g2) = (b, g3) \<longrightarrow>
         fst (parseAdditiveExpression g) = BinaryExpressionTree (type tok) a b
         \<or> (\<exists>op c. fst (parseAdditiveExpression g) =
               BinaryExpressionTree op (BinaryExpressionTree (type tok) a b) c))
   \<and> (parsePrimary g = (a, g1) \<and> s_peekToken g1 = (tok, g2) \<and> matchFactor tok
        \<and> parsePrimary (s_nextToken g2) = (b, g3) \<longrightarrow>
         fst (parseMultiplicativeExpression g) = BinaryExpressionTree (type tok) a b
         \<or> (\<exists>op c. fst (parseMultiplicativeExpression g) =
               BinaryExpressionTree op (BinaryExpressionTree (type tok) a b) c))
   \<and> evaluateConstantExpressionTree (BinaryExpressionTree TOKEN_TYPE_ADD NullTree r) =
         0 + evaluateConstantExpressionTree r
   \<and> evaluateConstantExpressionTree (BinaryExpressionTree TOKEN_TYPE_MINUS NullTree r) =
         0 - evaluateConstantExpressionTree r
   \<and> evaluateConstantExpressionTree (BinaryExpressionTree TOKEN_TYPE_MUL NullTree r) =
         0 * evaluateConstantExpressionTree r
   \<and> evaluateConstantExpressionTree (BinaryExpressionTree TOKEN_TYPE_ADD l NullTree) =
         evaluateConstantExpressionTree l + 0
   \<and> evaluateConstantExpressionTree (BinaryExpressionTree TOKEN_TYPE_MINUS l NullTree) =
         evaluateConstantExpressionTree l - 0
   \<and> evaluateConstantExpressionTree (BinaryExpressionTree TOKEN_TYPE_MUL l NullTree) =
         evaluateConstantExpressionTree l * 0
   \<and> parseText ''+ 5'' g =
        (BinaryExpressionTree TOKEN_TYPE_ADD NullTree
           (LiteralTree \<lparr>name = ''5'', type = TOKEN_TYPE_INTEGER\<rparr>),
         g\<lparr>scanner := \<lparr>buffer = ''+ 5'', currentCharacterIndex = 3, nextCharacterIndex = 3\<rparr>,
           console := console g @ [''Syntax error in +'' @ [CHR 0x0A]],
           liveNodes := liveNodes g + 2\<rparr>)
   \<and> evaluateText ''+ 5'' g = 5"
proof -
  have total: "\<exists>t g' v. parseText buf g = (t, g') \<and> evaluateText buf g = v
       \<and> v = evaluateConstantExpressionTree t"
    by (cases "parseText buf g") (simp add: evaluateText_def)
  have ws: "(\<forall>ch\<in>set ws. isspaceCh ch) \<longrightarrow>
         fst (parseText ws g) = NullTree \<and> evaluateText ws g = 0
         \<and> ''Syntax error in '' @ [CHR 0x0A] \<in> set (console (snd (parseText ws g)))"
    using parseText_whitespace_only(1,2) [of ws g] by (simp add: evaluateText_def)
  have plus5: "parseText ''+ 5'' g =
        (BinaryExpressionTree TOKEN_TYPE_ADD NullTree
           (LiteralTree \<lparr>name = ''5'', type = TOKEN_TYPE_INTEGER\<rparr>),
         g\<lparr>scanner := \<lparr>buffer = ''+ 5'', currentCharacterIndex = 3, nextCharacterIndex = 3\<rparr>,
           console := console g @ [''Syntax error in +'' @ [CHR 0x0A]],
           liveNodes := liveNodes g + 2\<rparr>)"
    by (simp add: run_defs)
  have v5: "evaluateText ''+ 5'' g = 5"
    by (simp add: evaluateText_def plus5) (simp add: run_defs)
  show ?thesis
    using total ws plus5 v5 parseAdditiveExpression_wraps [of g a g1 tok g2 b g3]
      parseMultiplicativeExpression_wraps [of g a g1 tok g2 b g3]
    by (simp add: Let_def)
qed

text \<open>C8 on blank, tab, blank; on \<^verbatim>\<open>+ 5\<close>; and on \<^verbatim>\<open>*5\<close>.\<close>

theorem null_child_evaluates_to_zero_witness:
  "list_all isspaceCh [CHR '' '', CHR 0x09, CHR '' '']
   \<and> fst (parseText [CHR '' '', CHR 0x09, CHR '' ''] initialGlobals) = NullTree
   \<and> evaluateText [CHR '' '', CHR 0x09, CHR '' ''] initialGlobals = 0
   \<and> parseMultiplicativeExpression (s_setBuffer ''+ 5'' initialGlobals) =
        (NullTree,
         \<lparr>scanner = \<lparr>buffer = ''+ 5'', currentCharacterIndex = 0, nextCharacterIndex = 1\<rparr>,
          console = [''Syntax error in +'' @ [CHR 0x0A]], liveNodes = 0\<rparr>)
   \<and> fst (parseAdditiveExpression (s_setBuffer ''+ 5'' initialGlobals)) =
        BinaryExpressionTree TOKEN_TYPE_ADD NullTree
          (LiteralTree \<lparr>name = ''5'', type = TOKEN_TYPE_INTEGER\<rparr>)
   \<and> parsePrimary (s_setBuffer ''*5'' initialGlobals) =
        (NullTree,
         \<lparr>scanner = \<lparr>buffer = ''*5'', currentCharacterIndex = 0, nextCharacterIndex = 1\<rparr>,
          console = [''Syntax error in *'' @ [CHR 0x0A]], liveNodes = 0\<rparr>)
   \<and> fst (parseMultiplicativeExpression (s_setBuffer ''*5'' initialGlobals)) =
        BinaryExpressionTree TOKEN_TYPE_MUL NullTree
          (LiteralTree \<lparr>name = ''5'', type = TOKEN_TYPE_INTEGER\<rparr>)"
proof -
  let ?g = "s_setBuffer ''+ 5'' initialGlobals"
  let ?g1 = "\<lparr>scanner = \<lparr>buffer = ''+ 5'', currentCharacterIndex = 0, nextCharacterIndex = 1\<rparr>,
          console = [''Syntax error in +'' @ [CHR 0x0A]], liveNodes = 0\<rparr>"
  let ?tok = "\<lparr>name = ''+'', type = TOKEN_TYPE_ADD\<rparr>"
  let ?b = "LiteralTree \<lparr>name = ''5'', type = TOKEN_TYPE_INTEGER\<rparr>"
  let ?g3 = "\<lparr>scanner = \<lparr>buffer = ''+ 5'', currentCharacterIndex = 3, nextCharacterIndex = 3\<rparr>,
          console = [''Syntax error in +'' @ [CHR 0x0A]], liveNodes = 1\<rparr>"
  let ?h = "s_setBuffer ''*5'' initialGlobals"
  let ?h1 = "\<lparr>scanner = \<lparr>buffer = ''*5'', currentCharacterIndex = 0, nextCharacterIndex = 1\<rparr>,
          console = [''Syntax error in *'' @ [CHR 0x0A]], liveNodes = 0\<rparr>"
  let ?tok' = "\<lparr>name = ''*'', type = TOKEN_TYPE_MUL\<rparr>"
  let ?h3 = "\<lparr>scanner = \<lparr>buffer = ''*5'', currentCharacterIndex = 2, nextCharacterIndex = 2\<rparr>,
          console = [''Syntax error in *'' @ [CHR 0x0A]], liveNodes = 1\<rparr>"
  have sp: "\<forall>ch\<in>set [CHR '' '', CHR 0x09, CHR '' '']. isspaceCh ch"
    by (simp add: isspaceCh_def isspace_def)
  have a1: "parseMultiplicativeExpression ?g = (NullTree, ?g1)"
    by (simp add: run_defs initialGlobals_def)
  have a2: "s_peekToken ?g1 = (?tok, ?g1)"
    by (simp add: run_defs)
  have a3: "matchTerm ?tok" by (simp add: matchTerm_def)
  have a4: "parseMultiplicativeExpression (s_nextToken ?g1) = (?b, ?g3)"
    by (simp add: run_defs)
  have b1: "parsePrimary ?h = (NullTree, ?h1)"
    by (simp add: run_defs initialGlobals_def)
  have b2: "s_peekToken ?h1 = (?tok', ?h1)"
    by (simp add: run_defs)
  have b3: "matchFactor ?tok'" by (simp add: matchFactor_def)
  have b4: "parsePrimary (s_nextToken ?h1) = (?b, ?h3)"
    by (simp add: run_defs)
  have n1: "\<not> (\<exists>op c. fst (parseAdditiveExpression ?g) =
      BinaryExpressionTree op (BinaryExpressionTree TOKEN_TYPE_ADD NullTree ?b) c)"
    by (simp add: run_defs initialGlobals_def)
  have n2: "\<not> (\<exists>op c. fst (parseMultiplicativeExpression ?h) =
      BinaryExpressionTree op (BinaryExpressionTree TOKEN_TYPE_MUL NullTree ?b) c)"
    by (simp add: run_defs initialGlobals_def)
  note thm1 = null_child_evaluates_to_zero
    [where ws = "[CHR '' '', CHR 0x09, CHR '' '']" and g = initialGlobals]
  note thm2 = null_child_evaluates_to_zero
    [where g = ?g and a = NullTree and ?g1.0 = ?g1 and tok = ?tok and ?g2.0 = ?g1 and b = ?b
       and ?g3.0 = ?g3]
  note thm3 = null_child_evaluates_to_zero
    [where g = ?h and a = NullTree and ?g1.0 = ?h1 and tok = ?tok' and ?g2.0 = ?h1 and b = ?b
       and ?g3.0 = ?h3]
  have w: "fst (parseText [CHR '' '', CHR 0x09, CHR '' ''] initialGlobals) = NullTree
      \<and> evaluateText [CHR '' '', CHR 0x09, CHR '' ''] initialGlobals = 0"
    using thm1 sp by blast
  have "fst (parseAdditiveExpression ?g) = BinaryExpressionTree TOKEN_TYPE_ADD NullTree ?b"
    using thm2 a1 a2 a3 a4 n1 by simp
  moreover have "fst (parseMultiplicativeExpression ?h) =
      BinaryExpressionTree TOKEN_TYPE_MUL NullTree ?b"
    using thm3 b1 b2 b3 b4 n2 by simp
  ultimately show ?thesis
    using w a1 b1 sp by (simp add: list_all_iff)
qed

text \<open>
  Claim C10. \<^verbatim>\<open>peekToken\<close> returns a token of type \<^verbatim>\<open>TOKEN_TYPE_NULL\<close> at the end of the
  input, on a character that is not printable, and on a printable character that
  starts no token; the parser sees only the type, and on such a first token
  \<^verbatim>\<open>parseExpression\<close> returns the null tree whatever the cause. On \<^verbatim>\<open>4 $ 5\<close> the
  parser returns the literal 4, as it does on \<^verbatim>\<open>4\<close>; the scanner's line about \<^verbatim>\<open>$\<close>
  is printed (twice), the parser reports nothing, and the value is 4.
\<close>

theorem null_token_for_end_and_errors:
  "(getCharacter s = 0 \<longrightarrow> peekToken s = (\<lparr>name = [], type = TOKEN_TYPE_NULL\<rparr>, [], s))
   \<and> (getCharacter s \<noteq> 0 \<and> \<not> isprint (getCharacter s) \<longrightarrow>
        peekToken s =
          (\<lparr>name = [], type = TOKEN_TYPE_NULL\<rparr>,
           [''Bad lexical analysis stream (no such printable character)'' @ [CHR 0x0A]], s))
   \<and> (here s = ws @ ch # r \<and> blanks ws \<and> isprint (of_char ch) \<and> \<not> isspaceCh ch
        \<and> \<not> isdigitCh ch \<and> \<not> isSymbol ch \<longrightarrow>
        peekToken s =
          (\<lparr>name = [ch], type = TOKEN_TYPE_NULL\<rparr>,
           [''Unexpected lexical analysis character '' @ [ch] @ [CHR 0x0A]],
           s\<lparr>nextCharacterIndex := currentCharacterIndex s + length ws\<rparr>))
   \<and> (type (fst (peekToken (scanner g))) = TOKEN_TYPE_NULL \<longrightarrow>
        fst (parseExpression g) = NullTree)
   \<and> parseText ''4 $ 5'' g =
        (LiteralTree \<lparr>name = ''4'', type = TOKEN_TYPE_INTEGER\<rparr>,
         g\<lparr>scanner := \<lparr>buffer = ''4 $ 5'', currentCharacterIndex = 1, nextCharacterIndex = 2\<rparr>,
           console := console g @
             [''Unexpected lexical analysis character $'' @ [CHR 0x0A],
              ''Unexpected lexical analysis character $'' @ [CHR 0x0A]],
           liveNodes := liveNodes g + 1\<rparr>)
   \<and> fst (parseText ''4 $ 5'' g) = fst (parseText ''4'' g)
   \<and> evaluateText ''4 $ 5'' g = 4"
proof -
  have e: "getCharacter s = 0 \<longrightarrow> peekToken s = (\<lparr>name = [], type = TOKEN_TYPE_NULL\<rparr>, [], s)"
    by (simp add: peekToken_def)
  have u: "getCharacter s \<noteq> 0 \<and> \<not> isprint (getCharacter s) \<longrightarrow>
        peekToken s =
          (\<lparr>name = [], type = TOKEN_TYPE_NULL\<rparr>,
           [''Bad lexical analysis stream (no such printable character)'' @ [CHR 0x0A]], s)"
    by (simp add: peekToken_def)
  have o: "here s = ws @ ch # r \<and> blanks ws \<and> isprint (of_char ch) \<and> \<not> isspaceCh ch
        \<and> \<not> isdigitCh ch \<and> \<not> isSymbol ch \<longrightarrow>
        peekToken s =
          (\<lparr>name = [ch], type = TOKEN_TYPE_NULL\<rparr>,
           [''Unexpected lexical analysis character '' @ [ch] @ [CHR 0x0A]],
           s\<lparr>nextCharacterIndex := currentCharacterIndex s + length ws\<rparr>)"
    using peekToken_other [of s ws ch r] by blast
  have n: "type (fst (peekToken (scanner g))) = TOKEN_TYPE_NULL \<longrightarrow>
        fst (parseExpression g) = NullTree"
  proof
    assume ty: "type (fst (peekToken (scanner g))) = TOKEN_TYPE_NULL"
    obtain t msgs s' where pk: "peekToken (scanner g) = (t, msgs, s')"
      by (cases "peekToken (scanner g)") auto
    with ty have "type t = TOKEN_TYPE_NULL" by simp
    from parseExpression_null_token [OF pk this] show "fst (parseExpression g) = NullTree"
      by simp
  qed
  have p: "parseText ''4 $ 5'' g =
        (LiteralTree \<lparr>name = ''4'', type = TOKEN_TYPE_INTEGER\<rparr>,
         g\<lparr>scanner := \<lparr>buffer = ''4 $ 5'', currentCharacterIndex = 1, nextCharacterIndex = 2\<rparr>,
           console := console g @
             [''Unexpected lexical analysis character $'' @ [CHR 0x0A],
              ''Unexpected lexical analysis character $'' @ [CHR 0x0A]],
           liveNodes := liveNodes g + 1\<rparr>)"
    by (simp add: run_defs)
  have q: "fst (parseText ''4'' g) = LiteralTree \<lparr>name = ''4'', type = TOKEN_TYPE_INTEGER\<rparr>"
    by (simp add: run_defs)
  have v: "evaluateText ''4 $ 5'' g = 4"
    by (simp add: evaluateText_def p) (simp add: run_defs)
  show ?thesis
    using e u o n p q v by simp
qed

text \<open>C10 at the end of \<^verbatim>\<open>7\<close>, on the bell character, and on the \<^verbatim>\<open>$\<close> of \<^verbatim>\<open>4 $ 5\<close>.\<close>

theorem null_token_for_end_and_errors_witness:
  "getCharacter \<lparr>buffer = ''7'', currentCharacterIndex = 1, nextCharacterIndex = 0\<rparr> = 0
   \<and> peekToken \<lparr>buffer = ''7'', currentCharacterIndex = 1, nextCharacterIndex = 0\<rparr> =
       (\<lparr>name = [], type = TOKEN_TYPE_NULL\<rparr>, [],
        \<lparr>buffer = ''7'', currentCharacterIndex = 1, nextCharacterIndex = 0\<rparr>)
   \<and> getCharacter \<lparr>buffer = [CHR 0x07], currentCharacterIndex = 0, nextCharacterIndex = 0\<rparr> = 7
   \<and> peekToken \<lparr>buffer = [CHR 0x07], currentCharacterIndex = 0, nextCharacterIndex = 0\<rparr> =
       (\<lparr>name = [], type = TOKEN_TYPE_NULL\<rparr>,
        [''Bad lexical analysis stream (no such printable character)'' @ [CHR 0x0A]],
        \<lparr>buffer = [CHR 0x07], currentCharacterIndex = 0, nextCharacterIndex = 0\<rparr>)
   \<and> peekToken \<lparr>buffer = ''4 $ 5'', currentCharacterIndex = 1, nextCharacterIndex = 1\<rparr> =
       (\<lparr>name = ''$'', type = TOKEN_TYPE_NULL\<rparr>,
        [''Unexpected lexical analysis character $'' @ [CHR 0x0A]],
        \<lparr>buffer = ''4 $ 5'', currentCharacterIndex = 1, nextCharacterIndex = 2\<rparr>)
   \<and> fst (parseExpression (s_setBuffer ''$'' initialGlobals)) = NullTree"
proof -
  let ?s1 = "\<lparr>buffer = ''7'', currentCharacterIndex = 1, nextCharacterIndex = 0\<rparr>"
  let ?s2 = "\<lparr>buffer = [CHR 0x07], currentCharacterIndex = 0, nextCharacterIndex = 0\<rparr>"
  let ?s3 = "\<lparr>buffer = ''4 $ 5'', currentCharacterIndex = 1, nextCharacterIndex = 1\<rparr>"
  have h1: "getCharacter ?s1 = 0" by (simp add: getCharacter_def)
  have h2: "getCharacter ?s2 = 7" by (simp add: getCharacter_def)
  then have h2': "getCharacter ?s2 \<noteq> 0 \<and> \<not> isprint (getCharacter ?s2)"
    by (simp add: isprint_def)
  have h3: "here ?s3 = '' '' @ CHR ''$'' # '' 5'' \<and> blanks '' '' \<and> isprint (of_char CHR ''$'')
      \<and> \<not> isspaceCh CHR ''$'' \<and> \<not> isdigitCh CHR ''$'' \<and> \<not> isSymbol CHR ''$''"
    by (simp add: here_def blanks_def isprint_def isspaceCh_def isspace_def isdigitCh_def
        beginsWithDigit_def isSymbol_def)
  have h4: "type (fst (peekToken (scanner (s_setBuffer ''$'' initialGlobals)))) = TOKEN_TYPE_NULL"
    by (simp add: run_defs initialGlobals_def)
  from null_token_for_end_and_errors [where s = ?s1, THEN conjunct1, rule_format, OF h1]
    null_token_for_end_and_errors [where s = ?s2, THEN conjunct2, THEN conjunct1, rule_format, OF h2']
    null_token_for_end_and_errors [where s = ?s3, THEN conjunct2, THEN conjunct2, THEN conjunct1,
      rule_format, OF h3]
    null_token_for_end_and_errors [where g = "s_setBuffer ''$'' initialGlobals", THEN conjunct2,
      THEN conjunct2, THEN conjunct2, THEN conjunct1, rule_format, OF h4]
  show ?thesis using h1 h2 by simp
qed

section \<open>Well-formed expression texts\<close>

text \<open>
  The texts of the grammar
  \<^verbatim>\<open>Primary := Integer | '(' Additive ')'\<close>,
  \<^verbatim>\<open>Multiplicative := Primary ('*' Primary)*\<close>,
  \<^verbatim>\<open>Additive := Multiplicative (('+'|'-') Multiplicative)*\<close>,
  as syntax trees that keep the whitespace in front of every token. A chain of
  operands is a list: the first operand, the whitespace and the operator after it,
  and the rest of the chain.
\<close>

datatype AddOp = OpPlus | OpMinus

datatype Primary =
    Number string string
  | Parens string Additive string
and Multiplicative =
    Factor Primary
  | Times Primary string Multiplicative
and Additive =
    Term Multiplicative
  | Sum Multiplicative string AddOp Additive

fun addOpChar :: "AddOp \<Rightarrow> char" where
  "addOpChar OpPlus = CHR ''+''"
| "addOpChar OpMinus = CHR ''-''"

fun addOpType :: "AddOp \<Rightarrow> TokenType" where
  "addOpType OpPlus = TOKEN_TYPE_ADD"
| "addOpType OpMinus = TOKEN_TYPE_MINUS"

fun text_p :: "Primary \<Rightarrow> string"
  and text_m :: "Multiplicative \<Rightarrow> string"
  and text_a :: "Additive \<Rightarrow> string"
where
  "text_p (Number ws ds) = ws @ ds"
| "text_p (Parens ws e ws') = ws @ CHR ''('' # text_a e @ ws' @ [CHR '')'']"
| "text_m (Factor p) = text_p p"
| "text_m (Times p ws m) = text_p p @ ws @ CHR ''*'' # text_m m"
| "text_a (Term m) = text_m m"
| "text_a (Sum m ws op a) = text_m m @ ws @ addOpChar op # text_a a"

text \<open>Every run of whitespace is one the scanner skips, every number is a nonempty
  run of digits.\<close>

fun wf_p :: "Primary \<Rightarrow> bool"
  and wf_m :: "Multiplicative \<Rightarrow> bool"
  and wf_a :: "Additive \<Rightarrow> bool"
where
  "wf_p (Number ws ds) \<longleftrightarrow> blanks ws \<and> digits ds"
| "wf_p (Parens ws e ws') \<longleftrightarrow> blanks ws \<and> wf_a e \<and> blanks ws'"
| "wf_m (Factor p) \<longleftrightarrow> wf_p p"
| "wf_m (Times p ws m) \<longleftrightarrow> wf_p p \<and> blanks ws \<and> wf_m m"
| "wf_a (Term m) \<longleftrightarrow> wf_m m"
| "wf_a (Sum m ws op a) \<longleftrightarrow> wf_m m \<and> blanks ws \<and> wf_a a"

text \<open>
  The grouping of section 4.2 of the specification: the first two operands of a
  chain make a pair, and the pair is combined with the rest of the chain, grouped
  the same way.
\<close>

fun group_p :: "Primary \<Rightarrow> Tree"
  and group_m :: "Multiplicative \<Rightarrow> Tree"
  and group_a :: "Additive \<Rightarrow> Tree"
where
  "group_p (Number ws ds) = LiteralTree \<lparr>name = ds, type = TOKEN_TYPE_INTEGER\<rparr>"
| "group_p (Parens ws e ws') = group_a e"
| "group_m (Factor p) = group_p p"
| "group_m (Times p ws (Factor q)) =
     BinaryExpressionTree TOKEN_TYPE_MUL (group_p p) (group_p q)"
| "group_m (Times p ws (Times q ws' m)) =
     BinaryExpressionTree TOKEN_TYPE_MUL
       (BinaryExpressionTree TOKEN_TYPE_MUL (group_p p) (group_p q)) (group_m m)"
| "group_a (Term m) = group_m m"
| "group_a (Sum m ws op (Term m')) =
     BinaryExpressionTree (addOpType op) (group_m m) (group_m m')"
| "group_a (Sum m ws op (Sum m' ws' op' a)) =
     BinaryExpressionTree (addOpType op')
       (BinaryExpressionTree (addOpType op) (group_m m) (group_m m')) (group_a a)"

fun nodes :: "Tree \<Rightarrow> nat" where
  "nodes NullTree = 0"
| "nodes (LiteralTree t) = 1"
| "nodes (UnaryExpressionTree ty c) = Suc (nodes c)"
| "nodes (BinaryExpressionTree ty l r) = Suc (nodes l + nodes r)"

section \<open>The parser on well-formed texts\<close>

text \<open>
  From \<open>g\<close> to \<open>g'\<close> the cursor has moved \<open>k\<close> characters forward in the same
  buffer and \<open>n\<close> nodes have been allocated.
\<close>

definition moved :: "nat \<Rightarrow> int \<Rightarrow> Globals \<Rightarrow> Globals \<Rightarrow> bool" where
  "moved k n g g' \<longleftrightarrow>
     buffer (scanner g') = buffer (scanner g)
     \<and> currentCharacterIndex (scanner g') = currentCharacterIndex (scanner g) + k
     \<and> liveNodes g' = liveNodes g + n"

lemma moved_trans:
  "moved k n g g' \<Longrightarrow> moved k' n' g' g'' \<Longrightarrow> moved (k + k') (n + n') g g''"
  by (simp add: moved_def)

lemma moved_here:
  assumes "moved k n g g'" and "here (scanner g) = xs @ r" and "k = length xs"
  shows "here (scanner g') = r"
proof -
  have "here (scanner g') = drop k (here (scanner g))"
    using assms(1) by (simp add: moved_def here_def add.commute)
  then show ?thesis using assms(2,3) by simp
qed

text \<open>The next token of the text \<open>r\<close> is not \<^verbatim>\<open>*\<close>; is neither \<^verbatim>\<open>+\<close> nor \<^verbatim>\<open>-\<close>.\<close>

definition noFactorAhead :: "string \<Rightarrow> bool" where
  "noFactorAhead r \<longleftrightarrow> (\<forall>s. here s = r \<longrightarrow> \<not> matchFactor (fst (peekToken s)))"

definition noTermAhead :: "string \<Rightarrow> bool" where
  "noTermAhead r \<longleftrightarrow> (\<forall>s. here s = r \<longrightarrow> \<not> matchTerm (fst (peekToken s)))"

lemma stops_symbol: "blanks ws \<Longrightarrow> isSymbol ch \<Longrightarrow> stops (ws @ ch # r)"
  by (cases ws)
     (auto simp: stops_def blanks_def istrailCh_def isIdentifier_def beginsWithName_def
        beginsWithDigit_def isSymbol_def)

lemma stops_blanks: "blanks ws \<Longrightarrow> stops ws"
  by (cases ws)
     (auto simp: stops_def blanks_def istrailCh_def isIdentifier_def beginsWithName_def
        beginsWithDigit_def)

lemma noFactorAhead_symbol:
  "blanks ws \<Longrightarrow> isSymbol ch \<Longrightarrow> symbolType ch \<noteq> TOKEN_TYPE_MUL \<Longrightarrow>
     noFactorAhead (ws @ ch # r)"
  by (simp add: noFactorAhead_def peekToken_symbol matchFactor_def)

lemma noTermAhead_symbol:
  "blanks ws \<Longrightarrow> isSymbol ch \<Longrightarrow> symbolType ch \<noteq> TOKEN_TYPE_ADD \<Longrightarrow>
     symbolType ch \<noteq> TOKEN_TYPE_MINUS \<Longrightarrow> noTermAhead (ws @ ch # r)"
  by (simp add: noTermAhead_def peekToken_symbol matchTerm_def)

lemma nothing_ahead_blanks:
  assumes "blanks ws"
  shows "noFactorAhead ws" and "noTermAhead ws"
proof -
  have "type (fst (peekToken s)) = TOKEN_TYPE_NULL" if "here s = ws" for s
    using peekToken_whitespace_only [OF that] assms by (simp add: blanks_def)
  then show "noFactorAhead ws" and "noTermAhead ws"
    by (simp_all add: noFactorAhead_def noTermAhead_def matchFactor_def matchTerm_def)
qed

text \<open>One token consumed: \<^verbatim>\<open>peekToken\<close> followed by \<^verbatim>\<open>nextToken\<close>.\<close>

lemma take_symbol:
  assumes "here (scanner g) = ws @ ch # r" and "blanks ws" and "isSymbol ch"
  obtains g1 where "s_peekToken g = (\<lparr>name = [ch], type = symbolType ch\<rparr>, g1)"
    and "moved (length ws + 1) 0 g (s_nextToken g1)"
    and "here (scanner (s_nextToken g1)) = r"
proof -
  let ?g1 = "g\<lparr>scanner := (scanner g)\<lparr>nextCharacterIndex :=
      currentCharacterIndex (scanner g) + length ws + 1\<rparr>, console := console g @ []\<rparr>"
  have pk: "s_peekToken g = (\<lparr>name = [ch], type = symbolType ch\<rparr>, ?g1)"
    using peekToken_symbol [OF assms] by (simp add: s_peekToken_def)
  have mv: "moved (length ws + 1) 0 g (s_nextToken ?g1)"
    by (simp add: moved_def s_nextToken_def nextToken_def)
  have "here (scanner (s_nextToken ?g1)) = r"
    using moved_here [OF mv, of "ws @ [ch]" r] assms(1) by simp
  with pk mv show ?thesis by (rule that)
qed

lemma take_digits:
  assumes "here (scanner g) = ws @ ds @ r" and "blanks ws" and "digits ds" and "stops r"
  obtains g1 where "s_peekToken g = (\<lparr>name = ds, type = TOKEN_TYPE_INTEGER\<rparr>, g1)"
    and "moved (length ws + length ds) 0 g (s_nextToken g1)"
proof -
  let ?g1 = "g\<lparr>scanner := (scanner g)\<lparr>nextCharacterIndex :=
      currentCharacterIndex (scanner g) + length ws + length ds\<rparr>, console := console g @ []\<rparr>"
  have pk: "s_peekToken g = (\<lparr>name = ds, type = TOKEN_TYPE_INTEGER\<rparr>, ?g1)"
    using peekToken_digits [OF assms] by (simp add: s_peekToken_def)
  have mv: "moved (length ws + length ds) 0 g (s_nextToken ?g1)"
    by (simp add: moved_def s_nextToken_def nextToken_def)
  with pk show ?thesis by (rule that)
qed

lemma look_ahead:
  obtains tok g1 where "s_peekToken g = (tok, g1)" and "moved 0 0 g g1"
    and "tok = fst (peekToken (scanner g))"
proof -
  obtain tok msgs s' where pk: "peekToken (scanner g) = (tok, msgs, s')"
    by (cases "peekToken (scanner g)") auto
  have "s_peekToken g = (tok, g\<lparr>scanner := s', console := console g @ msgs\<rparr>)"
    using pk by (simp add: s_peekToken_def)
  moreover have "moved 0 0 g (g\<lparr>scanner := s', console := console g @ msgs\<rparr>)"
    using peekToken_frame [OF pk] by (simp add: moved_def)
  ultimately show ?thesis using pk by (intro that) simp_all
qed

text \<open>A parsing function returns the tree \<open>t\<close>, having read \<open>k\<close> characters and
  allocated the nodes of \<open>t\<close>.\<close>

definition parses :: "(Globals \<Rightarrow> Tree \<times> Globals) \<Rightarrow> Globals \<Rightarrow> Tree \<Rightarrow> nat \<Rightarrow> bool" where
  "parses f g t k \<longleftrightarrow> fst (f g) = t \<and> moved k (int (nodes t)) g (snd (f g))"

lemma parsesE:
  assumes "parses f g t k"
  obtains g' where "f g = (t, g')" and "moved k (int (nodes t)) g g'"
  using assms by (cases "f g") (auto simp: parses_def)

lemma parsesI: "f g = (t, g') \<Longrightarrow> moved k (int (nodes t)) g g' \<Longrightarrow> parses f g t k"
  by (simp add: parses_def)

definition okP :: "Primary \<Rightarrow> bool" where
  "okP p \<longleftrightarrow> (\<forall>g rest. here (scanner g) = text_p p @ rest \<and> stops rest \<longrightarrow>
      parses parsePrimary g (group_p p) (length (text_p p)))"

definition okM :: "Multiplicative \<Rightarrow> bool" where
  "okM m \<longleftrightarrow> (\<forall>g rest. here (scanner g) = text_m m @ rest \<and> stops rest \<and> noFactorAhead rest \<longrightarrow>
      parses parseMultiplicativeExpression g (group_m m) (length (text_m m)))"

definition okA :: "Additive \<Rightarrow> bool" where
  "okA a \<longleftrightarrow> (\<forall>g rest. here (scanner g) = text_a a @ rest \<and> stops rest \<and> noFactorAhead rest
        \<and> noTermAhead rest \<longrightarrow>
      parses parseAdditiveExpression g (group_a a) (length (text_a a)))"

lemma okP_D:
  "okP p \<Longrightarrow> here (scanner g) = text_p p @ rest \<Longrightarrow> stops rest \<Longrightarrow>
     parses parsePrimary g (group_p p) (length (text_p p))"
  by (simp add: okP_def)

lemma okM_D:
  "okM m \<Longrightarrow> here (scanner g) = text_m m @ rest \<Longrightarrow> stops rest \<Longrightarrow> noFactorAhead rest \<Longrightarrow>
     parses parseMultiplicativeExpression g (group_m m) (length (text_m m))"
  by (simp add: okM_def)

lemma okA_D:
  "okA a \<Longrightarrow> here (scanner g) = text_a a @ rest \<Longrightarrow> stops rest \<Longrightarrow> noFactorAhead rest \<Longrightarrow>
     noTermAhead rest \<Longrightarrow>
     parses parseAdditiveExpression g (group_a a) (length (text_a a))"
  by (simp add: okA_def)

lemma isSymbol_simps [simp]:
  "isSymbol CHR ''+''" "isSymbol CHR ''-''" "isSymbol CHR ''*''" "isSymbol CHR ''(''"
  "isSymbol CHR '')''" "isSymbol (addOpChar op)"
  by (cases op; simp add: isSymbol_def)+

lemma symbolType_simps [simp]:
  "symbolType CHR ''+'' = TOKEN_TYPE_ADD" "symbolType CHR ''-'' = TOKEN_TYPE_MINUS"
  "symbolType CHR ''*'' = TOKEN_TYPE_MUL" "symbolType CHR ''('' = TOKEN_TYPE_LPAREN"
  "symbolType CHR '')'' = TOKEN_TYPE_RPAREN" "symbolType (addOpChar op) = addOpType op"
  by (cases op; simp add: symbolType_def)+

lemma addOpType_neq [simp]:
  "addOpType op \<noteq> TOKEN_TYPE_MUL" "addOpType op \<noteq> TOKEN_TYPE_NULL"
  "addOpType op = TOKEN_TYPE_ADD \<or> addOpType op = TOKEN_TYPE_MINUS"
  by (cases op; simp)+

lemma okP_Number:
  assumes "blanks ws" and "digits ds"
  shows "okP (Number ws ds)"
  unfolding okP_def
proof (intro allI impI, elim conjE)
  fix g :: Globals and rest
  assume h: "here (scanner g) = text_p (Number ws ds) @ rest" and st: "stops rest"
  from h have h': "here (scanner g) = ws @ ds @ rest" by simp
  from take_digits [OF h' assms st] obtain g1
    where pk: "s_peekToken g = (\<lparr>name = ds, type = TOKEN_TYPE_INTEGER\<rparr>, g1)"
      and mv: "moved (length ws + length ds) 0 g (s_nextToken g1)" by blast
  have "parsePrimary g =
      (LiteralTree \<lparr>name = ds, type = TOKEN_TYPE_INTEGER\<rparr>,
       (s_nextToken g1)\<lparr>liveNodes := liveNodes (s_nextToken g1) + 1\<rparr>)"
    by (simp add: parsePrimary.simps [of g] pk matchToken_def createLiteralTree_def)
  moreover have "moved (length ws + length ds) 1 g
      ((s_nextToken g1)\<lparr>liveNodes := liveNodes (s_nextToken g1) + 1\<rparr>)"
    using mv by (simp add: moved_def)
  ultimately show "parses parsePrimary g (group_p (Number ws ds)) (length (text_p (Number ws ds)))"
    by (intro parsesI) simp_all
qed

lemma okP_Parens:
  assumes "blanks ws" and "blanks ws'" and ih: "okA e"
  shows "okP (Parens ws e ws')"
  unfolding okP_def
proof (intro allI impI, elim conjE)
  fix g :: Globals and rest
  assume h: "here (scanner g) = text_p (Parens ws e ws') @ rest" and st: "stops rest"
  from h have h': "here (scanner g) = ws @ CHR ''('' # (text_a e @ ws' @ CHR '')'' # rest)"
    by simp
  from take_symbol [OF h' assms(1)] obtain g1
    where pk: "s_peekToken g = (\<lparr>name = [CHR ''(''], type = TOKEN_TYPE_LPAREN\<rparr>, g1)"
      and mv1: "moved (length ws + 1) 0 g (s_nextToken g1)"
      and h1: "here (scanner (s_nextToken g1)) = text_a e @ (ws' @ CHR '')'' # rest)"
    by force
  have "parses parseAdditiveExpression (s_nextToken g1) (group_a e) (length (text_a e))"
    using assms(2)
    by (intro okA_D [OF ih h1]) (simp_all add: stops_symbol noFactorAhead_symbol noTermAhead_symbol)
  then obtain g2 where pe: "parseAdditiveExpression (s_nextToken g1) = (group_a e, g2)"
    and mv2: "moved (length (text_a e)) (int (nodes (group_a e))) (s_nextToken g1) g2"
    by (rule parsesE)
  have h2: "here (scanner g2) = ws' @ CHR '')'' # rest"
    using moved_here [OF mv2 h1] by simp
  from take_symbol [OF h2 assms(2)] obtain g3
    where pk2: "s_peekToken g2 = (\<lparr>name = [CHR '')''], type = TOKEN_TYPE_RPAREN\<rparr>, g3)"
      and mv3: "moved (length ws' + 1) 0 g2 (s_nextToken g3)"
    by force
  have "parsePrimary g = (group_a e, s_nextToken g3)"
    by (simp add: parsePrimary.simps [of g] pk matchToken_def pe pk2)
  moreover have "moved (length (text_p (Parens ws e ws'))) (int (nodes (group_a e))) g
      (s_nextToken g3)"
    using moved_trans [OF moved_trans [OF mv1 mv2] mv3] by (simp add: add_ac)
  ultimately show "parses parsePrimary g (group_p (Parens ws e ws'))
      (length (text_p (Parens ws e ws')))"
    by (intro parsesI) simp_all
qed

lemma createBinaryExpressionTree_eq:
  "createBinaryExpressionTree ty a b g =
     (BinaryExpressionTree ty a b, g\<lparr>liveNodes := liveNodes g + 1\<rparr>)"
  by (simp add: createBinaryExpressionTree_def)

lemma moved_allocate: "moved 0 1 g (g\<lparr>liveNodes := liveNodes g + 1\<rparr>)"
  by (simp add: moved_def)

lemma here_allocate [simp]: "here (scanner (g\<lparr>liveNodes := n\<rparr>)) = here (scanner g)"
  by simp

lemma okM_Factor:
  assumes ih: "okP p"
  shows "okM (Factor p)"
  unfolding okM_def
proof (intro allI impI, elim conjE)
  fix g :: Globals and rest
  assume h: "here (scanner g) = text_m (Factor p) @ rest" and st: "stops rest"
    and nf: "noFactorAhead rest"
  from h have h0: "here (scanner g) = text_p p @ rest" by simp
  from okP_D [OF ih h0 st] obtain g1 where p1: "parsePrimary g = (group_p p, g1)"
    and mv1: "moved (length (text_p p)) (int (nodes (group_p p))) g g1"
    by (rule parsesE)
  have h1: "here (scanner g1) = rest" using moved_here [OF mv1 h0] by simp
  obtain tok g2 where pk: "s_peekToken g1 = (tok, g2)" and mv2: "moved 0 0 g1 g2"
    and tok: "tok = fst (peekToken (scanner g1))" by (rule look_ahead)
  have "\<not> matchFactor tok" using nf h1 tok by (simp add: noFactorAhead_def)
  then have "parseMultiplicativeExpression g = (group_p p, g2)"
    by (simp add: parseMultiplicativeExpression.simps [of g] p1 pk)
  moreover have "moved (length (text_p p)) (int (nodes (group_p p))) g g2"
    using moved_trans [OF mv1 mv2] by simp
  ultimately show "parses parseMultiplicativeExpression g (group_m (Factor p))
      (length (text_m (Factor p)))"
    by (intro parsesI) simp_all
qed

lemma okM_Times2:
  assumes bl: "blanks ws" and ihp: "okP p" and ihq: "okP q"
  shows "okM (Times p ws (Factor q))"
  unfolding okM_def
proof (intro allI impI, elim conjE)
  fix g :: Globals and rest
  assume h: "here (scanner g) = text_m (Times p ws (Factor q)) @ rest" and st: "stops rest"
    and nf: "noFactorAhead rest"
  from h have h0: "here (scanner g) = text_p p @ (ws @ CHR ''*'' # (text_p q @ rest))" by simp
  have "parses parsePrimary g (group_p p) (length (text_p p))"
    using bl by (intro okP_D [OF ihp h0]) (simp add: stops_symbol)
  then obtain g1 where p1: "parsePrimary g = (group_p p, g1)"
    and mv1: "moved (length (text_p p)) (int (nodes (group_p p))) g g1"
    by (rule parsesE)
  have h1: "here (scanner g1) = ws @ CHR ''*'' # (text_p q @ rest)"
    using moved_here [OF mv1 h0] by simp
  from take_symbol [OF h1 bl] obtain g2
    where pk: "s_peekToken g1 = (\<lparr>name = [CHR ''*''], type = TOKEN_TYPE_MUL\<rparr>, g2)"
      and mv2: "moved (length ws + 1) 0 g1 (s_nextToken g2)"
      and h2: "here (scanner (s_nextToken g2)) = text_p q @ rest"
    by force
  from okP_D [OF ihq h2 st] obtain g3
    where p2: "parsePrimary (s_nextToken g2) = (group_p q, g3)"
      and mv3: "moved (length (text_p q)) (int (nodes (group_p q))) (s_nextToken g2) g3"
    by (rule parsesE)
  let ?g4 = "g3\<lparr>liveNodes := liveNodes g3 + 1\<rparr>"
  have h4: "here (scanner ?g4) = rest" using moved_here [OF mv3 h2] by simp
  obtain tok g5 where pk2: "s_peekToken ?g4 = (tok, g5)" and mv5: "moved 0 0 ?g4 g5"
    and tok: "tok = fst (peekToken (scanner ?g4))" by (rule look_ahead)
  have nm: "\<not> matchFactor tok" using nf h4 tok by (simp add: noFactorAhead_def)
  have "parseMultiplicativeExpression g =
      (BinaryExpressionTree TOKEN_TYPE_MUL (group_p p) (group_p q), g5)"
    using nm
    by (simp add: parseMultiplicativeExpression.simps [of g] p1 pk matchFactor_def p2
        createBinaryExpressionTree_eq pk2)
  moreover have "moved (length (text_m (Times p ws (Factor q))))
      (int (nodes (group_m (Times p ws (Factor q))))) g g5"
    using moved_trans [OF moved_trans [OF moved_trans [OF moved_trans [OF mv1 mv2] mv3]
          moved_allocate] mv5]
    by (simp add: add_ac)
  ultimately show "parses parseMultiplicativeExpression g (group_m (Times p ws (Factor q)))
      (length (text_m (Times p ws (Factor q))))"
    by (intro parsesI) simp_all
qed

lemma okM_Times3:
  assumes bl: "blanks ws" and bl': "blanks ws'" and ihp: "okP p" and ihq: "okP q"
    and ihm: "okM m"
  shows "okM (Times p ws (Times q ws' m))"
  unfolding okM_def
proof (intro allI impI, elim conjE)
  fix g :: Globals and rest
  assume h: "here (scanner g) = text_m (Times p ws (Times q ws' m)) @ rest"
    and st: "stops rest" and nf: "noFactorAhead rest"
  from h have h0: "here (scanner g) =
      text_p p @ (ws @ CHR ''*'' # (text_p q @ (ws' @ CHR ''*'' # (text_m m @ rest))))"
    by simp
  have "parses parsePrimary g (group_p p) (length (text_p p))"
    using bl by (intro okP_D [OF ihp h0]) (simp add: stops_symbol)
  then obtain g1 where p1: "parsePrimary g = (group_p p, g1)"
    and mv1: "moved (length (text_p p)) (int (nodes (group_p p))) g g1"
    by (rule parsesE)
  have h1: "here (scanner g1) =
      ws @ CHR ''*'' # (text_p q @ (ws' @ CHR ''*'' # (text_m m @ rest)))"
    using moved_here [OF mv1 h0] by simp
  from take_symbol [OF h1 bl] obtain g2
    where pk: "s_peekToken g1 = (\<lparr>name = [CHR ''*''], type = TOKEN_TYPE_MUL\<rparr>, g2)"
      and mv2: "moved (length ws + 1) 0 g1 (s_nextToken g2)"
      and h2: "here (scanner (s_nextToken g2)) = text_p q @ (ws' @ CHR ''*'' # (text_m m @ rest))"
    by force
  have "parses parsePrimary (s_nextToken g2) (group_p q) (length (text_p q))"
    using bl' by (intro okP_D [OF ihq h2]) (simp add: stops_symbol)
  then obtain g3
    where p2: "parsePrimary (s_nextToken g2) = (group_p q, g3)"
      and mv3: "moved (length (text_p q)) (int (nodes (group_p q))) (s_nextToken g2) g3"
    by (rule parsesE)
  let ?g4 = "g3\<lparr>liveNodes := liveNodes g3 + 1\<rparr>"
  have h4: "here (scanner ?g4) = ws' @ CHR ''*'' # (text_m m @ rest)"
    using moved_here [OF mv3 h2] by simp
  from take_symbol [OF h4 bl'] obtain g5
    where pk2: "s_peekToken ?g4 = (\<lparr>name = [CHR ''*''], type = TOKEN_TYPE_MUL\<rparr>, g5)"
      and mv5: "moved (length ws' + 1) 0 ?g4 (s_nextToken g5)"
      and h5: "here (scanner (s_nextToken g5)) = text_m m @ rest"
    by force
  from okM_D [OF ihm h5 st nf] obtain g6
    where p3: "parseMultiplicativeExpression (s_nextToken g5) = (group_m m, g6)"
      and mv6: "moved (length (text_m m)) (int (nodes (group_m m))) (s_nextToken g5) g6"
    by (rule parsesE)
  have "parseMultiplicativeExpression g =
      (BinaryExpressionTree TOKEN_TYPE_MUL
         (BinaryExpressionTree TOKEN_TYPE_MUL (group_p p) (group_p q)) (group_m m),
       g6\<lparr>liveNodes := liveNodes g6 + 1\<rparr>)"
    by (simp add: parseMultiplicativeExpression.simps [of g] p1 pk matchFactor_def p2
        createBinaryExpressionTree_eq pk2 p3)
  moreover have "moved (length (text_m (Times p ws (Times q ws' m))))
      (int (nodes (group_m (Times p ws (Times q ws' m))))) g (g6\<lparr>liveNodes := liveNodes g6 + 1\<rparr>)"
    using moved_trans [OF moved_trans [OF moved_trans [OF moved_trans [OF moved_trans
          [OF moved_trans [OF mv1 mv2] mv3] moved_allocate] mv5] mv6] moved_allocate]
    by (simp add: add_ac)
  ultimately show "parses parseMultiplicativeExpression g (group_m (Times p ws (Times q ws' m)))
      (length (text_m (Times p ws (Times q ws' m))))"
    by (intro parsesI) simp_all
qed

lemma matchTerm_addOp [simp]: "matchTerm \<lparr>name = nm, type = addOpType op\<rparr>"
  by (cases op) (simp_all add: matchTerm_def)

lemma okA_Term:
  assumes ih: "okM m"
  shows "okA (Term m)"
  unfolding okA_def
proof (intro allI impI, elim conjE)
  fix g :: Globals and rest
  assume h: "here (scanner g) = text_a (Term m) @ rest" and st: "stops rest"
    and nf: "noFactorAhead rest" and nt: "noTermAhead rest"
  from h have h0: "here (scanner g) = text_m m @ rest" by simp
  from okM_D [OF ih h0 st nf] obtain g1
    where p1: "parseMultiplicativeExpression g = (group_m m, g1)"
      and mv1: "moved (length (text_m m)) (int (nodes (group_m m))) g g1"
    by (rule parsesE)
  have h1: "here (scanner g1) = rest" using moved_here [OF mv1 h0] by simp
  obtain tok g2 where pk: "s_peekToken g1 = (tok, g2)" and mv2: "moved 0 0 g1 g2"
    and tok: "tok = fst (peekToken (scanner g1))" by (rule look_ahead)
  have "\<not> matchTerm tok" using nt h1 tok by (simp add: noTermAhead_def)
  then have "parseAdditiveExpression g = (group_m m, g2)"
    by (simp add: parseAdditiveExpression.simps [of g] p1 pk)
  moreover have "moved (length (text_m m)) (int (nodes (group_m m))) g g2"
    using moved_trans [OF mv1 mv2] by simp
  ultimately show "parses parseAdditiveExpression g (group_a (Term m))
      (length (text_a (Term m)))"
    by (intro parsesI) simp_all
qed

lemma okA_Sum2:
  assumes bl: "blanks ws" and ihm: "okM m" and ihm': "okM m'"
  shows "okA (Sum m ws op (Term m'))"
  unfolding okA_def
proof (intro allI impI, elim conjE)
  fix g :: Globals and rest
  assume h: "here (scanner g) = text_a (Sum m ws op (Term m')) @ rest" and st: "stops rest"
    and nf: "noFactorAhead rest" and nt: "noTermAhead rest"
  from h have h0: "here (scanner g) = text_m m @ (ws @ addOpChar op # (text_m m' @ rest))"
    by simp
  have "parses parseMultiplicativeExpression g (group_m m) (length (text_m m))"
    using bl by (intro okM_D [OF ihm h0]) (simp_all add: stops_symbol noFactorAhead_symbol)
  then obtain g1 where p1: "parseMultiplicativeExpression g = (group_m m, g1)"
    and mv1: "moved (length (text_m m)) (int (nodes (group_m m))) g g1"
    by (rule parsesE)
  have h1: "here (scanner g1) = ws @ addOpChar op # (text_m m' @ rest)"
    using moved_here [OF mv1 h0] by simp
  from take_symbol [OF h1 bl] obtain g2
    where pk: "s_peekToken g1 = (\<lparr>name = [addOpChar op], type = addOpType op\<rparr>, g2)"
      and mv2: "moved (length ws + 1) 0 g1 (s_nextToken g2)"
      and h2: "here (scanner (s_nextToken g2)) = text_m m' @ rest"
    by force
  from okM_D [OF ihm' h2 st nf] obtain g3
    where p2: "parseMultiplicativeExpression (s_nextToken g2) = (group_m m', g3)"
      and mv3: "moved (length (text_m m')) (int (nodes (group_m m'))) (s_nextToken g2) g3"
    by (rule parsesE)
  let ?g4 = "g3\<lparr>liveNodes := liveNodes g3 + 1\<rparr>"
  have h4: "here (scanner ?g4) = rest" using moved_here [OF mv3 h2] by simp
  obtain tok g5 where pk2: "s_peekToken ?g4 = (tok, g5)" and mv5: "moved 0 0 ?g4 g5"
    and tok: "tok = fst (peekToken (scanner ?g4))" by (rule look_ahead)
  have nm: "\<not> matchTerm tok" using nt h4 tok by (simp add: noTermAhead_def)
  have "parseAdditiveExpression g =
      (BinaryExpressionTree (addOpType op) (group_m m) (group_m m'), g5)"
    using nm
    by (simp add: parseAdditiveExpression.simps [of g] p1 pk p2
        createBinaryExpressionTree_eq pk2)
  moreover have "moved (length (text_a (Sum m ws op (Term m'))))
      (int (nodes (group_a (Sum m ws op (Term m'))))) g g5"
    using moved_trans [OF moved_trans [OF moved_trans [OF moved_trans [OF mv1 mv2] mv3]
          moved_allocate] mv5]
    by (simp add: add_ac)
  ultimately show "parses parseAdditiveExpression g (group_a (Sum m ws op (Term m')))
      (length (text_a (Sum m ws op (Term m'))))"
    by (intro parsesI) simp_all
qed

lemma okA_Sum3:
  assumes bl: "blanks ws" and bl': "blanks ws'" and ihm: "okM m" and ihm': "okM m'"
    and iha: "okA a"
  shows "okA (Sum m ws op (Sum m' ws' op' a))"
  unfolding okA_def
proof (intro allI impI, elim conjE)
  fix g :: Globals and rest
  assume h: "here (scanner g) = text_a (Sum m ws op (Sum m' ws' op' a)) @ rest"
    and st: "stops rest" and nf: "noFactorAhead rest" and nt: "noTermAhead rest"
  from h have h0: "here (scanner g) =
      text_m m @ (ws @ addOpChar op # (text_m m' @ (ws' @ addOpChar op' # (text_a a @ rest))))"
    by simp
  have "parses parseMultiplicativeExpression g (group_m m) (length (text_m m))"
    using bl by (intro okM_D [OF ihm h0]) (simp_all add: stops_symbol noFactorAhead_symbol)
  then obtain g1 where p1: "parseMultiplicativeExpression g = (group_m m, g1)"
    and mv1: "moved (length (text_m m)) (int (nodes (group_m m))) g g1"
    by (rule parsesE)
  have h1: "here (scanner g1) =
      ws @ addOpChar op # (text_m m' @ (ws' @ addOpChar op' # (text_a a @ rest)))"
    using moved_here [OF mv1 h0] by simp
  from take_symbol [OF h1 bl] obtain g2
    where pk: "s_peekToken g1 = (\<lparr>name = [addOpChar op], type = addOpType op\<rparr>, g2)"
      and mv2: "moved (length ws + 1) 0 g1 (s_nextToken g2)"
      and h2: "here (scanner (s_nextToken g2)) =
          text_m m' @ (ws' @ addOpChar op' # (text_a a @ rest))"
    by force
  have "parses parseMultiplicativeExpression (s_nextToken g2) (group_m m') (length (text_m m'))"
    using bl' by (intro okM_D [OF ihm' h2]) (simp_all add: stops_symbol noFactorAhead_symbol)
  then obtain g3
    where p2: "parseMultiplicativeExpression (s_nextToken g2) = (group_m m', g3)"
      and mv3: "moved (length (text_m m')) (int (nodes (group_m m'))) (s_nextToken g2) g3"
    by (rule parsesE)
  let ?g4 = "g3\<lparr>liveNodes := liveNodes g3 + 1\<rparr>"
  have h4: "here (scanner ?g4) = ws' @ addOpChar op' # (text_a a @ rest)"
    using moved_here [OF mv3 h2] by simp
  from take_symbol [OF h4 bl'] obtain g5
    where pk2: "s_peekToken ?g4 = (\<lparr>name = [addOpChar op'], type = addOpType op'\<rparr>, g5)"
      and mv5: "moved (length ws' + 1) 0 ?g4 (s_nextToken g5)"
      and h5: "here (scanner (s_nextToken g5)) = text_a a @ rest"
    by force
  from okA_D [OF iha h5 st nf nt] obtain g6
    where p3: "parseAdditiveExpression (s_nextToken g5) = (group_a a, g6)"
      and mv6: "moved (length (text_a a)) (int (nodes (group_a a))) (s_nextToken g5) g6"
    by (rule parsesE)
  have "parseAdditiveExpression g =
      (BinaryExpressionTree (addOpType op')
         (BinaryExpressionTree (addOpType op) (group_m m) (group_m m')) (group_a a),
       g6\<lparr>liveNodes := liveNodes g6 + 1\<rparr>)"
    by (simp add: parseAdditiveExpression.simps [of g] p1 pk p2
        createBinaryExpressionTree_eq pk2 p3)
  moreover have "moved (length (text_a (Sum m ws op (Sum m' ws' op' a))))
      (int (nodes (group_a (Sum m ws op (Sum m' ws' op' a))))) g
      (g6\<lparr>liveNodes := liveNodes g6 + 1\<rparr>)"
    using moved_trans [OF moved_trans [OF moved_trans [OF moved_trans [OF moved_trans
          [OF moved_trans [OF mv1 mv2] mv3] moved_allocate] mv5] mv6] moved_allocate]
    by (simp add: add_ac)
  ultimately show "parses parseAdditiveExpression g (group_a (Sum m ws op (Sum m' ws' op' a)))
      (length (text_a (Sum m ws op (Sum m' ws' op' a))))"
    by (intro parsesI) simp_all
qed

text \<open>The parser builds the grouping of section 4.2 on every well-formed text.\<close>

lemma parser_groups:
  "wf_p p \<Longrightarrow> okP p" "wf_m m \<Longrightarrow> okM m" "wf_a a \<Longrightarrow> okA a"
proof (induction p and m and a rule: group_p_group_m_group_a.induct)
  case (1 ws ds)
  then show ?case by (simp add: okP_Number)
next
  case (2 ws e ws')
  then show ?case by (simp add: okP_Parens)
next
  case (3 p)
  then show ?case by (simp add: okM_Factor)
next
  case (4 p ws q)
  then show ?case by (simp add: okM_Times2)
next
  case (5 p ws q ws' m)
  then show ?case by (simp add: okM_Times3)
next
  case (6 m)
  then show ?case by (simp add: okA_Term)
next
  case (7 m ws op m')
  then show ?case by (simp add: okA_Sum2)
next
  case (8 m ws op m' ws' op' a)
  then show ?case by (simp add: okA_Sum3)
qed

lemma parseText_groups:
  assumes "wf_a e" and "blanks tw"
  shows "fst (parseText (text_a e @ tw) g) = group_a e"
    and "liveNodes (snd (parseText (text_a e @ tw) g)) = liveNodes g + int (nodes (group_a e))"
    and "currentCharacterIndex (scanner (snd (parseText (text_a e @ tw) g))) = length (text_a e)"
proof -
  let ?g0 = "s_setBuffer (text_a e @ tw) g"
  have h: "here (scanner ?g0) = text_a e @ tw" by (simp add: s_setBuffer_def)
  have "parses parseAdditiveExpression ?g0 (group_a e) (length (text_a e))"
    using assms(2)
    by (intro okA_D [OF parser_groups(3) [OF assms(1)] h])
       (simp_all add: stops_blanks nothing_ahead_blanks)
  then show "fst (parseText (text_a e @ tw) g) = group_a e"
    and "liveNodes (snd (parseText (text_a e @ tw) g)) = liveNodes g + int (nodes (group_a e))"
    and "currentCharacterIndex (scanner (snd (parseText (text_a e @ tw) g))) = length (text_a e)"
    by (simp_all add: parses_def parseText_def moved_def s_setBuffer_def setBuffer_def)
qed

section \<open>The value of an expression text\<close>

text \<open>
  The value a reader computes: a number is read in base ten, a chain is evaluated
  from left to right, \<^verbatim>\<open>*\<close> binds tighter than \<^verbatim>\<open>+\<close> and \<^verbatim>\<open>-\<close>. The accumulator of
  \<open>timesFrom\<close> and \<open>sumFrom\<close> is the value of the chain so far.
\<close>

definition decimal :: "string \<Rightarrow> int" where
  "decimal ds = foldl (\<lambda>v ch. 10 * v + (of_char ch - 48)) 0 ds"

fun applyAddOp :: "AddOp \<Rightarrow> int \<Rightarrow> int \<Rightarrow> int" where
  "applyAddOp OpPlus x y = x + y"
| "applyAddOp OpMinus x y = x - y"

fun value_p :: "Primary \<Rightarrow> int"
  and value_m :: "Multiplicative \<Rightarrow> int"
  and timesFrom :: "int \<Rightarrow> Multiplicative \<Rightarrow> int"
  and value_a :: "Additive \<Rightarrow> int"
  and sumFrom :: "int \<Rightarrow> AddOp \<Rightarrow> Additive \<Rightarrow> int"
where
  "value_p (Number ws ds) = decimal ds"
| "value_p (Parens ws e ws') = value_a e"
| "value_m (Factor p) = value_p p"
| "value_m (Times p ws m) = timesFrom (value_p p) m"
| "timesFrom x (Factor p) = x * value_p p"
| "timesFrom x (Times p ws m) = timesFrom (x * value_p p) m"
| "value_a (Term m) = value_m m"
| "value_a (Sum m ws op a) = sumFrom (value_m m) op a"
| "sumFrom x op (Term m) = applyAddOp op x (value_m m)"
| "sumFrom x op (Sum m ws op' a) = sumFrom (applyAddOp op x (value_m m)) op' a"

text \<open>The number of operators in a chain, and the texts in which no chain, at
  either level and at any depth, has more than two.\<close>

fun operators_m :: "Multiplicative \<Rightarrow> nat" where
  "operators_m (Factor p) = 0"
| "operators_m (Times p ws m) = Suc (operators_m m)"

fun operators_a :: "Additive \<Rightarrow> nat" where
  "operators_a (Term m) = 0"
| "operators_a (Sum m ws op a) = Suc (operators_a a)"

fun short_p :: "Primary \<Rightarrow> bool"
  and short_m :: "Multiplicative \<Rightarrow> bool"
  and short_a :: "Additive \<Rightarrow> bool"
where
  "short_p (Number ws ds) \<longleftrightarrow> True"
| "short_p (Parens ws e ws') \<longleftrightarrow> short_a e"
| "short_m (Factor p) \<longleftrightarrow> short_p p"
| "short_m (Times p ws m) \<longleftrightarrow> short_p p \<and> short_m m \<and> operators_m m \<le> 1"
| "short_a (Term m) \<longleftrightarrow> short_m m"
| "short_a (Sum m ws op a) \<longleftrightarrow> short_m m \<and> short_a a \<and> operators_a a \<le> 1"

text \<open>Every number of the text is in the range of \<^verbatim>\<open>long long\<close>.\<close>

fun fits_p :: "Primary \<Rightarrow> bool"
  and fits_m :: "Multiplicative \<Rightarrow> bool"
  and fits_a :: "Additive \<Rightarrow> bool"
where
  "fits_p (Number ws ds) \<longleftrightarrow> decimal ds \<le> LLONG_MAX"
| "fits_p (Parens ws e ws') \<longleftrightarrow> fits_a e"
| "fits_m (Factor p) \<longleftrightarrow> fits_p p"
| "fits_m (Times p ws m) \<longleftrightarrow> fits_p p \<and> fits_m m"
| "fits_a (Term m) \<longleftrightarrow> fits_m m"
| "fits_a (Sum m ws op a) \<longleftrightarrow> fits_m m \<and> fits_a a"

lemma digitsValue_foldl:
  "\<forall>ch\<in>set ds. isdigitCh ch \<Longrightarrow>
     digitsValue x ds = foldl (\<lambda>v ch. 10 * v + (of_char ch - 48)) x ds"
  by (induction ds arbitrary: x) (simp_all add: isdigitCh_def mult.commute)

lemma atoll_digits:
  assumes "digits ds"
  shows "atoll (c_str ds) = min LLONG_MAX (decimal ds)"
proof -
  from assms obtain d ds' where ds: "ds = d # ds'" and d: "isdigitCh d"
    and all: "\<forall>ch\<in>set ds. isdigitCh ch"
    by (cases ds) (auto simp: digits_def)
  have nz: "ch \<noteq> CHR 0x00" if "isdigitCh ch" for ch
    using that by (auto simp: isdigitCh_def beginsWithDigit_def)
  have "\<forall>ch\<in>set ds. ch \<noteq> CHR 0x00" using all nz by blast
  then have c: "c_str ds = ds" by (simp add: c_str_def)
  have "\<not> isspace (of_char d)" "d \<noteq> CHR ''-''" "d \<noteq> CHR ''+''"
    using d by (auto simp: isdigitCh_def beginsWithDigit_def isspace_def)
  then have "atoll ds = min LLONG_MAX (digitsValue 0 ds)"
    by (simp add: atoll_def ds)
  then show ?thesis
    using digitsValue_foldl [OF all, of 0] by (simp add: c decimal_def)
qed

lemma evaluate_literal:
  assumes "digits ds" and "decimal ds \<le> LLONG_MAX"
  shows "evaluateConstantExpressionTree (LiteralTree \<lparr>name = ds, type = TOKEN_TYPE_INTEGER\<rparr>) =
    word_of_int (decimal ds)"
  using assms by (simp add: atoll_digits min_def)

lemma operators_m_0: "operators_m m = 0 \<Longrightarrow> \<exists>p. m = Factor p"
  by (cases m) simp_all

lemma operators_a_0: "operators_a a = 0 \<Longrightarrow> \<exists>m. a = Term m"
  by (cases a) simp_all

lemma evaluate_group:
  "wf_p p \<Longrightarrow> short_p p \<Longrightarrow> fits_p p \<Longrightarrow>
     evaluateConstantExpressionTree (group_p p) = word_of_int (value_p p)"
  "wf_m m \<Longrightarrow> short_m m \<Longrightarrow> fits_m m \<Longrightarrow>
     evaluateConstantExpressionTree (group_m m) = word_of_int (value_m m)"
  "wf_a a \<Longrightarrow> short_a a \<Longrightarrow> fits_a a \<Longrightarrow>
     evaluateConstantExpressionTree (group_a a) = word_of_int (value_a a)"
proof (induction p and m and a rule: group_p_group_m_group_a.induct)
  case (1 ws ds)
  then show ?case by (simp add: atoll_digits min_def)
next
  case (2 ws e ws')
  then show ?case by simp
next
  case (3 p)
  then show ?case by simp
next
  case (4 p ws q)
  then show ?case by (simp add: Let_def)
next
  case (5 p ws q ws' m)
  from "5.prems" have "operators_m m = 0" by simp
  then obtain r where m: "m = Factor r" using operators_m_0 by blast
  from 5 show ?case by (simp add: Let_def m)
next
  case (6 m)
  then show ?case by simp
next
  case (7 m ws op m')
  then show ?case
    by (cases op) (simp_all add: Let_def)
next
  case (8 m ws op m' ws' op' a)
  from "8.prems" have "operators_a a = 0" by simp
  then obtain m'' where a: "a = Term m''" using operators_a_0 by blast
  from 8 show ?case
    by (cases op; cases op') (simp_all add: Let_def a)
qed

text \<open>
  Claim C1, amended. Take a well-formed expression text: numbers, \<^verbatim>\<open>+\<close>, \<^verbatim>\<open>-\<close>, \<^verbatim>\<open>*\<close>
  and balanced parentheses, with whitespace the scanner skips in front of any token
  and after the last one. If no chain of operands, additive or multiplicative, at
  any depth, has more than two operators, and every number is at most
  \<open>2\<^sup>6\<^sup>3 - 1\<close> (the range of \<^verbatim>\<open>atoll\<close>), then the tree that \<^verbatim>\<open>parseExpression\<close> returns
  evaluates to the value of the text under left-to-right evaluation with \<^verbatim>\<open>*\<close>
  binding tighter, reduced modulo \<open>2\<^sup>6\<^sup>4\<close>: the value itself when it is between 0
  and \<open>2\<^sup>6\<^sup>4 - 1\<close>, and the value itself read as a signed 64-bit number when it is
  between \<open>- 2\<^sup>6\<^sup>3\<close> and \<open>2\<^sup>6\<^sup>3 - 1\<close>.
\<close>

theorem short_chains_evaluate_correctly:
  assumes "wf_a e" and "short_a e" and "fits_a e" and "blanks tw"
  shows "evaluateText (text_a e @ tw) g = word_of_int (value_a e)
    \<and> (0 \<le> value_a e \<and> value_a e < 2 ^ 64 \<longrightarrow>
         uint (evaluateText (text_a e @ tw) g) = value_a e)
    \<and> (- (2 ^ 63) \<le> value_a e \<and> value_a e < 2 ^ 63 \<longrightarrow>
         sint (evaluateText (text_a e @ tw) g) = value_a e)"
proof -
  have v: "evaluateText (text_a e @ tw) g = word_of_int (value_a e)"
    using parseText_groups(1) [OF assms(1,4)] evaluate_group(3) [OF assms(1-3)]
    by (simp add: evaluateText_def)
  have "uint (word_of_int (value_a e) :: uint64_t) = value_a e"
    if "0 \<le> value_a e" "value_a e < 2 ^ 64"
    using that by (simp add: uint_word_of_int_eq take_bit_int_eq_self)
  moreover have "sint (word_of_int (value_a e) :: uint64_t) = value_a e"
    if "- (2 ^ 63) \<le> value_a e" "value_a e < 2 ^ 63"
    using that by (simp add: sint_sbintrunc' signed_take_bit_int_eq_self)
  ultimately show ?thesis using v by simp
qed

text \<open>The amended C1 on \<^verbatim>\<open>(4 + 3 * 8) + 8 * 8 + (4 * 4)\<close> and on \<^verbatim>\<open>10 - 20 - 3\<close> followed
  by two blanks.\<close>

theorem short_chains_evaluate_correctly_witness:
  "wf_a (Sum (Factor (Parens [] (Sum (Factor (Number [] ''4'')) '' '' OpPlus
             (Term (Times (Number '' '' ''3'') '' '' (Factor (Number '' '' ''8''))))) []))
        '' '' OpPlus
        (Sum (Times (Number '' '' ''8'') '' '' (Factor (Number '' '' ''8''))) '' '' OpPlus
          (Term (Factor (Parens '' '' (Term (Times (Number [] ''4'') '' ''
             (Factor (Number '' '' ''4'')))) [])))))
   \<and> short_a (Sum (Factor (Parens [] (Sum (Factor (Number [] ''4'')) '' '' OpPlus
             (Term (Times (Number '' '' ''3'') '' '' (Factor (Number '' '' ''8''))))) []))
        '' '' OpPlus
        (Sum (Times (Number '' '' ''8'') '' '' (Factor (Number '' '' ''8''))) '' '' OpPlus
          (Term (Factor (Parens '' '' (Term (Times (Number [] ''4'') '' ''
             (Factor (Number '' '' ''4'')))) [])))))
   \<and> fits_a (Sum (Factor (Parens [] (Sum (Factor (Number [] ''4'')) '' '' OpPlus
             (Term (Times (Number '' '' ''3'') '' '' (Factor (Number '' '' ''8''))))) []))
        '' '' OpPlus
        (Sum (Times (Number '' '' ''8'') '' '' (Factor (Number '' '' ''8''))) '' '' OpPlus
          (Term (Factor (Parens '' '' (Term (Times (Number [] ''4'') '' ''
             (Factor (Number '' '' ''4'')))) [])))))
   \<and> blanks []
   \<and> evaluateText ''(4 + 3 * 8) + 8 * 8 + (4 * 4)'' initialGlobals = 108
   \<and> wf_a (Sum (Factor (Number [] ''10'')) '' '' OpMinus
        (Sum (Factor (Number '' '' ''20'')) '' '' OpMinus (Term (Factor (Number '' '' ''3'')))))
   \<and> short_a (Sum (Factor (Number [] ''10'')) '' '' OpMinus
        (Sum (Factor (Number '' '' ''20'')) '' '' OpMinus (Term (Factor (Number '' '' ''3'')))))
   \<and> fits_a (Sum (Factor (Number [] ''10'')) '' '' OpMinus
        (Sum (Factor (Number '' '' ''20'')) '' '' OpMinus (Term (Factor (Number '' '' ''3'')))))
   \<and> blanks ''  ''
   \<and> sint (evaluateText ''10 - 20 - 3  '' initialGlobals) = - 13"
proof -
  let ?e = "Sum (Factor (Parens [] (Sum (Factor (Number [] ''4'')) '' '' OpPlus
             (Term (Times (Number '' '' ''3'') '' '' (Factor (Number '' '' ''8''))))) []))
        '' '' OpPlus
        (Sum (Times (Number '' '' ''8'') '' '' (Factor (Number '' '' ''8''))) '' '' OpPlus
          (Term (Factor (Parens '' '' (Term (Times (Number [] ''4'') '' ''
             (Factor (Number '' '' ''4'')))) []))))"
  let ?f = "Sum (Factor (Number [] ''10'')) '' '' OpMinus
        (Sum (Factor (Number '' '' ''20'')) '' '' OpMinus (Term (Factor (Number '' '' ''3''))))"
  have cls: "blanks []" "blanks '' ''" "blanks ''  ''" "digits ''4''" "digits ''3''"
    "digits ''8''" "digits ''10''" "digits ''20''"
    by (simp_all add: blanks_def digits_def isspaceCh_def isspace_def isdigitCh_def
        beginsWithDigit_def)
  have dec: "decimal ''4'' = 4" "decimal ''3'' = 3" "decimal ''8'' = 8" "decimal ''10'' = 10"
    "decimal ''20'' = 20"
    by (simp_all add: decimal_def)
  have wf: "wf_a ?e" "wf_a ?f" using cls by simp_all
  have sh: "short_a ?e" "short_a ?f" by simp_all
  have ft: "fits_a ?e" "fits_a ?f" by (simp_all add: dec LLONG_MAX_def)
  have tx: "text_a ?e @ [] = ''(4 + 3 * 8) + 8 * 8 + (4 * 4)''"
    "text_a ?f @ ''  '' = ''10 - 20 - 3  ''" by simp_all
  have vl: "value_a ?e = 108" "value_a ?f = - 13" by (simp_all add: dec)
  from short_chains_evaluate_correctly [OF wf(1) sh(1) ft(1) cls(1), of initialGlobals]
    short_chains_evaluate_correctly [OF wf(2) sh(2) ft(2) cls(3), of initialGlobals]
  have "evaluateText ''(4 + 3 * 8) + 8 * 8 + (4 * 4)'' initialGlobals = 108"
    and "sint (evaluateText ''10 - 20 - 3  '' initialGlobals) = - 13"
    unfolding tx vl by simp_all
  with wf sh ft cls show ?thesis by simp
qed

text \<open>
  Claim C1, as stated, fails: the text \<^verbatim>\<open>9223372036854775808\<close> is a well-formed
  expression with no operator at all, its value is \<open>2\<^sup>6\<^sup>3\<close>, and the tree evaluates
  to \<open>2\<^sup>6\<^sup>3 - 1\<close>: \<^verbatim>\<open>atoll\<close> returns a \<^verbatim>\<open>long long\<close>.
\<close>

theorem large_literal_counterexample:
  "wf_a (Term (Factor (Number [] ''9223372036854775808'')))
   \<and> short_a (Term (Factor (Number [] ''9223372036854775808'')))
   \<and> text_a (Term (Factor (Number [] ''9223372036854775808''))) = ''9223372036854775808''
   \<and> value_a (Term (Factor (Number [] ''9223372036854775808''))) = 9223372036854775808
   \<and> uint (evaluateText ''9223372036854775808'' initialGlobals) = 9223372036854775807
   \<and> evaluateText ''9223372036854775808'' initialGlobals
       \<noteq> word_of_int (value_a (Term (Factor (Number [] ''9223372036854775808''))))"
proof -
  have "wf_a (Term (Factor (Number [] ''9223372036854775808'')))"
    by (simp add: blanks_def digits_def isdigitCh_def beginsWithDigit_def)
  moreover have v: "value_a (Term (Factor (Number [] ''9223372036854775808''))) =
      9223372036854775808"
    by (simp add: decimal_def)
  moreover have e: "evaluateText ''9223372036854775808'' initialGlobals = 9223372036854775807"
    by (simp add: run_defs initialGlobals_def)
  ultimately show ?thesis by (simp add: v e)
qed

text \<open>
  Claim C2. On a well-formed chain of three or more operands joined by \<^verbatim>\<open>+\<close> or \<^verbatim>\<open>-\<close>,
  the parser returns one binary node, tagged with the second operator, over the
  binary node of the first two operands (tagged with the first operator) and the
  tree it returns for the rest of the chain; the same holds of a chain joined by
  \<^verbatim>\<open>*\<close>. The operands' trees are the ones the parser returns on the operands' own
  texts. \<^verbatim>\<open>10 - 2 - 3\<close> parses to \<^verbatim>\<open>((10-2)-3)\<close> and evaluates to 5;
  \<^verbatim>\<open>1 - 2 - 3 - 4\<close> parses to \<^verbatim>\<open>((1-2)-(3-4))\<close> and evaluates to 0, whereas the
  left-associative tree \<^verbatim>\<open>(((1-2)-3)-4)\<close> evaluates to \<open>- 8\<close> (modulo \<open>2\<^sup>6\<^sup>4\<close>).
\<close>

theorem chains_group_first_pair_then_rest:
  "(wf_a (Sum m ws op (Sum m' ws' op' a)) \<and> blanks tw \<longrightarrow>
      fst (parseText (text_a (Sum m ws op (Sum m' ws' op' a)) @ tw) g) =
        BinaryExpressionTree (addOpType op')
          (BinaryExpressionTree (addOpType op)
             (fst (parseText (text_m m) g)) (fst (parseText (text_m m') g)))
          (fst (parseText (text_a a @ tw) g)))
   \<and> (wf_m (Times p ws (Times q ws' n)) \<and> blanks tw \<longrightarrow>
      fst (parseText (text_m (Times p ws (Times q ws' n)) @ tw) g) =
        BinaryExpressionTree TOKEN_TYPE_MUL
          (BinaryExpressionTree TOKEN_TYPE_MUL
             (fst (parseText (text_p p) g)) (fst (parseText (text_p q) g)))
          (fst (parseText (text_m n @ tw) g)))
   \<and> fst (parseText ''10 - 2 - 3'' g) =
        BinaryExpressionTree TOKEN_TYPE_MINUS
          (BinaryExpressionTree TOKEN_TYPE_MINUS
             (LiteralTree \<lparr>name = ''10'', type = TOKEN_TYPE_INTEGER\<rparr>)
             (LiteralTree \<lparr>name = ''2'', type = TOKEN_TYPE_INTEGER\<rparr>))
          (LiteralTree \<lparr>name = ''3'', type = TOKEN_TYPE_INTEGER\<rparr>)
   \<and> evaluateText ''10 - 2 - 3'' g = 5
   \<and> fst (parseText ''1 - 2 - 3 - 4'' g) =
        BinaryExpressionTree TOKEN_TYPE_MINUS
          (BinaryExpressionTree TOKEN_TYPE_MINUS
             (LiteralTree \<lparr>name = ''1'', type = TOKEN_TYPE_INTEGER\<rparr>)
             (LiteralTree \<lparr>name = ''2'', type = TOKEN_TYPE_INTEGER\<rparr>))
          (BinaryExpressionTree TOKEN_TYPE_MINUS
             (LiteralTree \<lparr>name = ''3'', type = TOKEN_TYPE_INTEGER\<rparr>)
             (LiteralTree \<lparr>name = ''4'', type = TOKEN_TYPE_INTEGER\<rparr>))
   \<and> evaluateText ''1 - 2 - 3 - 4'' g = 0
   \<and> evaluateConstantExpressionTree
        (BinaryExpressionTree TOKEN_TYPE_MINUS
          (BinaryExpressionTree TOKEN_TYPE_MINUS
            (BinaryExpressionTree TOKEN_TYPE_MINUS
               (LiteralTree \<lparr>name = ''1'', type = TOKEN_TYPE_INTEGER\<rparr>)
               (LiteralTree \<lparr>name = ''2'', type = TOKEN_TYPE_INTEGER\<rparr>))
            (LiteralTree \<lparr>name = ''3'', type = TOKEN_TYPE_INTEGER\<rparr>))
          (LiteralTree \<lparr>name = ''4'', type = TOKEN_TYPE_INTEGER\<rparr>)) = - 8
   \<and> evaluateText ''1 - 2 - 3 - 4'' g \<noteq> - 8"
proof -
  have part_m: "fst (parseText (text_m x) g) = group_m x" if "wf_m x" for x
    using parseText_groups(1) [of "Term x" "[]" g] that by (simp add: blanks_def)
  have part_p: "fst (parseText (text_p x) g) = group_p x" if "wf_p x" for x
    using parseText_groups(1) [of "Term (Factor x)" "[]" g] that by (simp add: blanks_def)
  have rest_m: "fst (parseText (text_m x @ tw) g) = group_m x" if "wf_m x" "blanks tw" for x
    using parseText_groups(1) [of "Term x" tw g] that by simp
  have add: "wf_a (Sum m ws op (Sum m' ws' op' a)) \<and> blanks tw \<longrightarrow>
      fst (parseText (text_a (Sum m ws op (Sum m' ws' op' a)) @ tw) g) =
        BinaryExpressionTree (addOpType op')
          (BinaryExpressionTree (addOpType op)
             (fst (parseText (text_m m) g)) (fst (parseText (text_m m') g)))
          (fst (parseText (text_a a @ tw) g))"
  proof (intro impI, elim conjE)
    assume wf: "wf_a (Sum m ws op (Sum m' ws' op' a))" and tw: "blanks tw"
    then have "wf_m m" "wf_m m'" "wf_a a" by simp_all
    then show "fst (parseText (text_a (Sum m ws op (Sum m' ws' op' a)) @ tw) g) =
        BinaryExpressionTree (addOpType op')
          (BinaryExpressionTree (addOpType op)
             (fst (parseText (text_m m) g)) (fst (parseText (text_m m') g)))
          (fst (parseText (text_a a @ tw) g))"
      using parseText_groups(1) [OF wf tw, of g] parseText_groups(1) [OF \<open>wf_a a\<close> tw, of g]
      by (simp only: part_m group_a.simps)
  qed
  have mul: "wf_m (Times p ws (Times q ws' n)) \<and> blanks tw \<longrightarrow>
      fst (parseText (text_m (Times p ws (Times q ws' n)) @ tw) g) =
        BinaryExpressionTree TOKEN_TYPE_MUL
          (BinaryExpressionTree TOKEN_TYPE_MUL
             (fst (parseText (text_p p) g)) (fst (parseText (text_p q) g)))
          (fst (parseText (text_m n @ tw) g))"
  proof (intro impI, elim conjE)
    assume wf: "wf_m (Times p ws (Times q ws' n))" and tw: "blanks tw"
    then have "wf_p p" "wf_p q" "wf_m n" by simp_all
    then show "fst (parseText (text_m (Times p ws (Times q ws' n)) @ tw) g) =
        BinaryExpressionTree TOKEN_TYPE_MUL
          (BinaryExpressionTree TOKEN_TYPE_MUL
             (fst (parseText (text_p p) g)) (fst (parseText (text_p q) g)))
          (fst (parseText (text_m n @ tw) g))"
      using tw wf by (simp only: part_p rest_m group_m.simps)
  qed
  have t3: "fst (parseText ''10 - 2 - 3'' g) =
        BinaryExpressionTree TOKEN_TYPE_MINUS
          (BinaryExpressionTree TOKEN_TYPE_MINUS
             (LiteralTree \<lparr>name = ''10'', type = TOKEN_TYPE_INTEGER\<rparr>)
             (LiteralTree \<lparr>name = ''2'', type = TOKEN_TYPE_INTEGER\<rparr>))
          (LiteralTree \<lparr>name = ''3'', type = TOKEN_TYPE_INTEGER\<rparr>)"
    by (simp add: run_defs)
  have v3: "evaluateText ''10 - 2 - 3'' g = 5"
    by (simp add: evaluateText_def t3) (simp add: run_defs)
  have t4: "fst (parseText ''1 - 2 - 3 - 4'' g) =
        BinaryExpressionTree TOKEN_TYPE_MINUS
          (BinaryExpressionTree TOKEN_TYPE_MINUS
             (LiteralTree \<lparr>name = ''1'', type = TOKEN_TYPE_INTEGER\<rparr>)
             (LiteralTree \<lparr>name = ''2'', type = TOKEN_TYPE_INTEGER\<rparr>))
          (BinaryExpressionTree TOKEN_TYPE_MINUS
             (LiteralTree \<lparr>name = ''3'', type = TOKEN_TYPE_INTEGER\<rparr>)
             (LiteralTree \<lparr>name = ''4'', type = TOKEN_TYPE_INTEGER\<rparr>))"
    by (simp add: run_defs)
  have v4: "evaluateText ''1 - 2 - 3 - 4'' g = 0"
    by (simp add: evaluateText_def t4) (simp add: run_defs)
  have l4: "evaluateConstantExpressionTree
        (BinaryExpressionTree TOKEN_TYPE_MINUS
          (BinaryExpressionTree TOKEN_TYPE_MINUS
            (BinaryExpressionTree TOKEN_TYPE_MINUS
               (LiteralTree \<lparr>name = ''1'', type = TOKEN_TYPE_INTEGER\<rparr>)
               (LiteralTree \<lparr>name = ''2'', type = TOKEN_TYPE_INTEGER\<rparr>))
            (LiteralTree \<lparr>name = ''3'', type = TOKEN_TYPE_INTEGER\<rparr>))
          (LiteralTree \<lparr>name = ''4'', type = TOKEN_TYPE_INTEGER\<rparr>)) = - 8"
    by (simp add: run_defs)
  have "(0 :: uint64_t) \<noteq> - 8" by simp
  with add mul t3 v3 t4 v4 l4 show ?thesis by simp
qed

text \<open>The general part of C2 on \<^verbatim>\<open>1 - 2 - 3 - 4\<close> and on \<^verbatim>\<open>2*3*4*5\<close>.\<close>

theorem chains_group_first_pair_then_rest_witness:
  "wf_a (Sum (Factor (Number [] ''1'')) '' '' OpMinus
      (Sum (Factor (Number '' '' ''2'')) '' '' OpMinus
        (Sum (Factor (Number '' '' ''3'')) '' '' OpMinus (Term (Factor (Number '' '' ''4''))))))
   \<and> blanks []
   \<and> fst (parseText ''1 - 2 - 3 - 4'' initialGlobals) =
        BinaryExpressionTree TOKEN_TYPE_MINUS
          (BinaryExpressionTree TOKEN_TYPE_MINUS
             (fst (parseText ''1'' initialGlobals)) (fst (parseText '' 2'' initialGlobals)))
          (fst (parseText '' 3 - 4'' initialGlobals))
   \<and> wf_m (Times (Number [] ''2'') [] (Times (Number [] ''3'') []
        (Times (Number [] ''4'') [] (Factor (Number [] ''5'')))))
   \<and> fst (parseText ''2*3*4*5'' initialGlobals) =
        BinaryExpressionTree TOKEN_TYPE_MUL
          (BinaryExpressionTree TOKEN_TYPE_MUL
             (fst (parseText ''2'' initialGlobals)) (fst (parseText ''3'' initialGlobals)))
          (fst (parseText ''4*5'' initialGlobals))"
proof -
  let ?m = "Factor (Number [] ''1'')"
  let ?m' = "Factor (Number '' '' ''2'')"
  let ?a = "Sum (Factor (Number '' '' ''3'')) '' '' OpMinus (Term (Factor (Number '' '' ''4'')))"
  let ?p = "Number [] ''2''"
  let ?q = "Number [] ''3''"
  let ?n = "Times (Number [] ''4'') [] (Factor (Number [] ''5''))"
  have cls: "blanks []" "blanks '' ''" "digits ''1''" "digits ''2''" "digits ''3''"
    "digits ''4''" "digits ''5''"
    by (simp_all add: blanks_def digits_def isspaceCh_def isspace_def isdigitCh_def
        beginsWithDigit_def)
  have wfa: "wf_a (Sum ?m '' '' OpMinus (Sum ?m' '' '' OpMinus ?a))" using cls by simp
  have wfm: "wf_m (Times ?p [] (Times ?q [] ?n))" using cls by simp
  note inst = chains_group_first_pair_then_rest
    [of ?m "'' ''" OpMinus ?m' "'' ''" OpMinus ?a "[]" initialGlobals]
  note inst' = chains_group_first_pair_then_rest
    [of _ "[]" _ _ "[]" _ _ "[]" initialGlobals ?p ?q ?n]
  have "fst (parseText ''1 - 2 - 3 - 4'' initialGlobals) =
        BinaryExpressionTree TOKEN_TYPE_MINUS
          (BinaryExpressionTree TOKEN_TYPE_MINUS
             (fst (parseText ''1'' initialGlobals)) (fst (parseText '' 2'' initialGlobals)))
          (fst (parseText '' 3 - 4'' initialGlobals))"
    using inst [THEN conjunct1] wfa cls(1) by simp
  moreover have "fst (parseText ''2*3*4*5'' initialGlobals) =
        BinaryExpressionTree TOKEN_TYPE_MUL
          (BinaryExpressionTree TOKEN_TYPE_MUL
             (fst (parseText ''2'' initialGlobals)) (fst (parseText ''3'' initialGlobals)))
          (fst (parseText ''4*5'' initialGlobals))"
    using inst' [THEN conjunct2, THEN conjunct1] wfm cls(1) by simp
  ultimately show ?thesis using wfa wfm cls(1) by simp
qed

end
